theory Spec2Isabelle
  imports Complex_Main "HOL-Library.Sublist"
begin

section \<open>Tool access policy (license.ts, types.ts)\<close>

text \<open>
  \<^verbatim>\<open>export type MobileDevTier = "free" | "advanced";\<close>
\<close>

datatype MobileDevTier = Free | Advanced

text \<open>The two tool tables of types.ts; \<^verbatim>\<open>ADVANCED_TOOLS\<close> spreads \<^verbatim>\<open>FREE_TOOLS\<close> first.\<close>

definition FREE_TOOLS :: "string list" where
  "FREE_TOOLS =
     [''screenshot_emulator'', ''list_devices'', ''get_device_info'', ''get_app_info'',
      ''get_adb_logs'', ''get_metro_logs'', ''check_metro_status'', ''get_license_status'']"

definition ADVANCED_TOOLS :: "string list" where
  "ADVANCED_TOOLS =
     FREE_TOOLS @
     [''screenshot_ios_simulator'', ''list_ios_simulators'', ''get_ios_simulator_info'',
      ''get_ios_simulator_logs'',
      ''get_ui_tree'', ''find_element'', ''wait_for_element'', ''get_element_property'',
      ''assert_element'',
      ''suggest_action'', ''analyze_screen'', ''get_screen_text'',
      ''set_license_key'']"

text \<open>\<^verbatim>\<open>Array.prototype.includes\<close> on a list of strings.\<close>

definition includes_list :: "'a list \<Rightarrow> 'a \<Rightarrow> bool" where
  "includes_list xs x = (x \<in> set xs)"

definition canAccessTool :: "string \<Rightarrow> MobileDevTier \<Rightarrow> bool" where
  "canAccessTool toolName tier =
     (if includes_list FREE_TOOLS toolName then True
      else if tier = Advanced \<and> includes_list ADVANCED_TOOLS toolName then True
      else False)"

section \<open>Strings and regular expressions (utils.ts)\<close>

text \<open>
  Strings are lists of characters. \<^verbatim>\<open>String.prototype.includes\<close> is containment as a
  contiguous substring, which is \<^const>\<open>sublist\<close>.

  \<^verbatim>\<open>String.prototype.toLowerCase\<close> follows the Unicode case mappings. The model folds the
  letters \<^verbatim>\<open>A\<close> to \<^verbatim>\<open>Z\<close> and leaves every other character as it is: that is what
  \<^verbatim>\<open>toLowerCase\<close> does on a text of ASCII characters, and on such texts only. The
  properties of the case-insensitive comparisons are therefore stated for ASCII texts.
\<close>

definition includes_str :: "string \<Rightarrow> string \<Rightarrow> bool" where
  "includes_str s sub = sublist sub s"

definition toLowerCaseChar :: "char \<Rightarrow> char" where
  "toLowerCaseChar c =
     (case map_of (zip ''ABCDEFGHIJKLMNOPQRSTUVWXYZ'' ''abcdefghijklmnopqrstuvwxyz'') c of
        Some l \<Rightarrow> l
      | None \<Rightarrow> c)"

definition toLowerCase :: "string \<Rightarrow> string" where
  "toLowerCase s = map toLowerCaseChar s"

definition isAscii :: "string \<Rightarrow> bool" where
  "isAscii s = list_all (\<lambda>c. (of_char c :: nat) < 128) s"

text \<open>
  A value of type \<^verbatim>\<open>string | undefined\<close> used as a condition: \<^verbatim>\<open>undefined\<close> and the
  empty string are falsy.
\<close>

definition truthy :: "string option \<Rightarrow> bool" where
  "truthy v = (case v of None \<Rightarrow> False | Some s \<Rightarrow> s \<noteq> [])"

text \<open>The class \<^verbatim>\<open>\d\<close> of a JavaScript regular expression: the ten ASCII digits.\<close>

definition isDigit :: "char \<Rightarrow> bool" where
  "isDigit c = (c \<in> set ''0123456789'')"

text \<open>
  \<^verbatim>\<open>Number(s)\<close> on a run of decimal digits, as a natural number. A JavaScript number is
  a double, so the value and the sums formed from it are exact below \<open>2 ^ 53\<close>; the
  model is the exact arithmetic, and the properties of the computed centers are stated for
  that range.
\<close>

definition digitValue :: "char \<Rightarrow> nat" where
  "digitValue c =
     (case map_of (zip ''0123456789'' [0, 1, 2, 3, 4, 5, 6, 7, 8, 9]) c of
        Some d \<Rightarrow> d
      | None \<Rightarrow> 0)"

definition Number :: "string \<Rightarrow> nat" where
  "Number s = foldl (\<lambda>acc c. 10 * acc + digitValue c) 0 s"

definition MAX_SAFE_INTEGER :: nat where
  "MAX_SAFE_INTEGER = 2 ^ 53 - 1"

text \<open>
  The pattern \<^verbatim>\<open><node[^>]+>\<close> tried at the head of the text: the literal \<^verbatim>\<open><node\<close>, then
  the longest run of characters other than the closing angle bracket, which must not be
  empty and must be followed by that bracket. The result is the matched text and the text
  after it.
\<close>

definition notGt :: "char \<Rightarrow> bool" where
  "notGt c = (c \<noteq> CHR ''>'')"

definition matchNodeAt :: "string \<Rightarrow> (string \<times> string) option" where
  "matchNodeAt s =
     (if prefix ''<node'' s then
        (let r = drop 5 s; a = takeWhile notGt r; b = dropWhile notGt r
         in if a \<noteq> [] \<and> b \<noteq> [] then Some (''<node'' @ a @ ''>'', tl b) else None)
      else None)"

text \<open>
  \<^verbatim>\<open>nodeRegex.exec(xmlDump)\<close>: the leftmost match. The regular expression is global, so
  the next call resumes after the match; the model hands the rest of the text back.
\<close>

fun nodeRegex_exec :: "string \<Rightarrow> (string \<times> string) option" where
  "nodeRegex_exec [] = None"
| "nodeRegex_exec (c # cs) =
     (case matchNodeAt (c # cs) of
        Some m \<Rightarrow> Some m
      | None \<Rightarrow> nodeRegex_exec cs)"

text \<open>
  \<^verbatim>\<open>node.match(/NAME="([^"]*)"/)\<close>, where \<open>key\<close> is the text \<^verbatim>\<open>NAME="\<close>: the leftmost
  place where the key is followed by a run of characters other than the double quote and
  then a double quote; the result is capture group 1.
\<close>

definition notQuote :: "char \<Rightarrow> bool" where
  "notQuote c = (c \<noteq> CHR 0x22)"

fun attrMatch :: "string \<Rightarrow> string \<Rightarrow> string option" where
  "attrMatch key [] = None"
| "attrMatch key (c # cs) =
     (if prefix key (c # cs) \<and> dropWhile notQuote (drop (length key) (c # cs)) \<noteq> []
      then Some (takeWhile notQuote (drop (length key) (c # cs)))
      else attrMatch key cs)"

definition getText :: "string \<Rightarrow> string \<Rightarrow> string" where
  "getText node attr =
     (case attrMatch (attr @ [CHR ''='', CHR 0x22]) node of
        Some v \<Rightarrow> v
      | None \<Rightarrow> [])"

definition getBool :: "string \<Rightarrow> string \<Rightarrow> bool" where
  "getBool node attr = (getText node attr = ''true'')"

text \<open>
  The pattern \<^verbatim>\<open>\[(\d+),(\d+)\]\[(\d+),(\d+)\]\<close> tried at the head of a text. A run
  \<^verbatim>\<open>\d+\<close> is the longest run of digits, which must not be empty; the character after it
  is a literal that is no digit, so no shorter run can match.
\<close>

definition lit :: "char \<Rightarrow> string \<Rightarrow> string option" where
  "lit c s = (case s of [] \<Rightarrow> None | d # r \<Rightarrow> if d = c then Some r else None)"

definition digits1 :: "string \<Rightarrow> (string \<times> string) option" where
  "digits1 s =
     (if takeWhile isDigit s = [] then None
      else Some (takeWhile isDigit s, dropWhile isDigit s))"

definition boundsMatchAt :: "string \<Rightarrow> (string \<times> string \<times> string \<times> string) option" where
  "boundsMatchAt s =
     (case lit CHR ''['' s of None \<Rightarrow> None | Some r1 \<Rightarrow>
      case digits1 r1 of None \<Rightarrow> None | Some (x1, r2) \<Rightarrow>
      case lit CHR '','' r2 of None \<Rightarrow> None | Some r3 \<Rightarrow>
      case digits1 r3 of None \<Rightarrow> None | Some (y1, r4) \<Rightarrow>
      case lit CHR '']'' r4 of None \<Rightarrow> None | Some r5 \<Rightarrow>
      case lit CHR ''['' r5 of None \<Rightarrow> None | Some r6 \<Rightarrow>
      case digits1 r6 of None \<Rightarrow> None | Some (x2, r7) \<Rightarrow>
      case lit CHR '','' r7 of None \<Rightarrow> None | Some r8 \<Rightarrow>
      case digits1 r8 of None \<Rightarrow> None | Some (y2, r9) \<Rightarrow>
      case lit CHR '']'' r9 of None \<Rightarrow> None | Some r10 \<Rightarrow>
      Some (x1, y1, x2, y2))"

text \<open>\<^verbatim>\<open>element.bounds.match(...)\<close>: the leftmost match and its four capture groups.\<close>

fun boundsMatch :: "string \<Rightarrow> (string \<times> string \<times> string \<times> string) option" where
  "boundsMatch [] = None"
| "boundsMatch (c # cs) =
     (case boundsMatchAt (c # cs) of
        Some m \<Rightarrow> Some m
      | None \<Rightarrow> boundsMatch cs)"

section \<open>UI tree parsing (utils.ts)\<close>

text \<open>
  \<^verbatim>\<open>interface UiElement\<close>. The field \<^verbatim>\<open>text\<close> is named \<open>text'\<close> here; the optional
  \<^verbatim>\<open>centerX\<close> and \<^verbatim>\<open>centerY\<close> are options.
\<close>

record UiElement =
  text' :: string
  resourceId :: string
  className :: string
  contentDescription :: string
  bounds :: string
  clickable :: bool
  enabled :: bool
  focused :: bool
  selected :: bool
  checked :: bool
  scrollable :: bool
  centerX :: "nat option"
  centerY :: "nat option"

definition MAX_XML_SIZE :: nat where
  "MAX_XML_SIZE = 10 * 1024 * 1024"

definition MAX_ELEMENTS :: nat where
  "MAX_ELEMENTS = 50000"

datatype parse_error = XmlDumpExceedsMaximumSize

text \<open>The body of the loop of \<^verbatim>\<open>parseUiTree\<close>: the element built from one matched node.\<close>

definition parseNode :: "string \<Rightarrow> UiElement" where
  "parseNode node =
     (let element =
        \<lparr> text' = getText node ''text'',
          resourceId = getText node ''resource-id'',
          className = getText node ''class'',
          contentDescription = getText node ''content-desc'',
          bounds = getText node ''bounds'',
          clickable = getBool node ''clickable'',
          enabled = getBool node ''enabled'',
          focused = getBool node ''focused'',
          selected = getBool node ''selected'',
          checked = getBool node ''checked'',
          scrollable = getBool node ''scrollable'',
          centerX = None,
          centerY = None \<rparr>
      in case boundsMatch (bounds element) of
           Some (x1, y1, x2, y2) \<Rightarrow>
             element \<lparr> centerX := Some ((Number x1 + Number x2) div 2),
                       centerY := Some ((Number y1 + Number y2) div 2) \<rparr>
         | None \<Rightarrow> element)"

lemma matchNodeAt_shorter:
  "matchNodeAt s = Some (node, rest) \<Longrightarrow> length rest < length s"
proof -
  assume m: "matchNodeAt s = Some (node, rest)"
  then have r: "rest = tl (dropWhile notGt (drop 5 s))" and ne: "dropWhile notGt (drop 5 s) \<noteq> []"
    and p: "prefix ''<node'' s"
    by (auto simp: matchNodeAt_def Let_def split: if_splits)
  have "length (dropWhile notGt (drop 5 s)) \<le> length (drop 5 s)"
    by (rule length_dropWhile_le)
  moreover have "length rest < length (dropWhile notGt (drop 5 s))"
    using r ne by (cases "dropWhile notGt (drop 5 s)") auto
  ultimately show ?thesis by simp
qed

lemma nodeRegex_exec_shorter:
  "nodeRegex_exec s = Some (node, rest) \<Longrightarrow> length rest < length s"
proof (induction s)
  case Nil
  then show ?case by simp
next
  case (Cons c cs)
  show ?case
  proof (cases "matchNodeAt (c # cs)")
    case None
    with Cons show ?thesis by fastforce
  next
    case (Some m)
    with Cons.prems have "matchNodeAt (c # cs) = Some (node, rest)" by simp
    then show ?thesis by (rule matchNodeAt_shorter)
  qed
qed

text \<open>
  The \<^verbatim>\<open>while\<close> loop of \<^verbatim>\<open>parseUiTree\<close>: \<open>xml\<close> is the text from \<^verbatim>\<open>lastIndex\<close> on,
  \<open>elements\<close> the array built so far. The loop ends when there is no further match, and
  breaks when the array has reached \<^verbatim>\<open>MAX_ELEMENTS\<close>.
\<close>

function parseLoop :: "string \<Rightarrow> UiElement list \<Rightarrow> UiElement list" where
  "parseLoop xml elements =
     (case nodeRegex_exec xml of
        None \<Rightarrow> elements
      | Some (node, rest) \<Rightarrow>
          if length elements \<ge> MAX_ELEMENTS then elements
          else parseLoop rest (elements @ [parseNode node]))"
  by pat_completeness auto
termination
  by (relation "measure (\<lambda>(xml, elements). length xml)")
     (auto dest: nodeRegex_exec_shorter)

definition parseUiTree :: "string \<Rightarrow> parse_error + UiElement list" where
  "parseUiTree xmlDump =
     (if length xmlDump > MAX_XML_SIZE then Inl XmlDumpExceedsMaximumSize
      else Inr (parseLoop xmlDump []))"

text \<open>
  The node declarations of a dump, in document order: every match of the node pattern,
  as \<^verbatim>\<open>xmlDump.match(nodeRegex)\<close> lists them. The loop above reads them one at a time.
\<close>

function nodeMatches :: "string \<Rightarrow> string list" where
  "nodeMatches xml =
     (case nodeRegex_exec xml of
        None \<Rightarrow> []
      | Some (node, rest) \<Rightarrow> node # nodeMatches rest)"
  by pat_completeness auto
termination
  by (relation "measure length") (auto dest: nodeRegex_exec_shorter)

section \<open>Element search (utils.ts)\<close>

text \<open>
  The criteria object of \<^verbatim>\<open>findElementInTree\<close>:
  \<^verbatim>\<open>{ text?: string; resourceId?: string; contentDescription?: string; className?: string }\<close>.
\<close>

record Criteria =
  critText :: "string option"
  critResourceId :: "string option"
  critContentDescription :: "string option"
  critClassName :: "string option"

text \<open>
  One test of the loop body, \<^verbatim>\<open>criteria.x && haystack.includes(needle)\<close>: the criterion must
  be truthy before it is compared.
\<close>

definition textTest :: "Criteria \<Rightarrow> UiElement \<Rightarrow> bool" where
  "textTest criteria el =
     (case critText criteria of
        None \<Rightarrow> False
      | Some t \<Rightarrow> t \<noteq> [] \<and> includes_str (toLowerCase (text' el)) (toLowerCase t))"

definition resourceIdTest :: "Criteria \<Rightarrow> UiElement \<Rightarrow> bool" where
  "resourceIdTest criteria el =
     (case critResourceId criteria of
        None \<Rightarrow> False
      | Some r \<Rightarrow> r \<noteq> [] \<and> includes_str (resourceId el) r)"

definition contentDescriptionTest :: "Criteria \<Rightarrow> UiElement \<Rightarrow> bool" where
  "contentDescriptionTest criteria el =
     (case critContentDescription criteria of
        None \<Rightarrow> False
      | Some d \<Rightarrow> d \<noteq> [] \<and> includes_str (toLowerCase (contentDescription el)) (toLowerCase d))"

definition classNameTest :: "Criteria \<Rightarrow> UiElement \<Rightarrow> bool" where
  "classNameTest criteria el =
     (case critClassName criteria of
        None \<Rightarrow> False
      | Some k \<Rightarrow> k \<noteq> [] \<and> includes_str (className el) k)"

fun findElementInTree :: "UiElement list \<Rightarrow> Criteria \<Rightarrow> UiElement option" where
  "findElementInTree [] criteria = None"
| "findElementInTree (el # elements) criteria =
     (if textTest criteria el then Some el
      else if resourceIdTest criteria el then Some el
      else if contentDescriptionTest criteria el then Some el
      else if classNameTest criteria el then Some el
      else findElementInTree elements criteria)"

section \<open>Rectangle literals (the specification's words)\<close>

text \<open>
  A well-formed unsigned integer is a non-empty run of decimal digits. A rectangle literal
  is a text of the form \<^verbatim>\<open>[x1,y1][x2,y2]\<close> with four of them.
\<close>

definition digitString :: "string \<Rightarrow> bool" where
  "digitString s = (s \<noteq> [] \<and> list_all isDigit s)"

definition rectLiteral :: "string \<Rightarrow> string \<Rightarrow> string \<Rightarrow> string \<Rightarrow> string" where
  "rectLiteral x1 y1 x2 y2 = ''['' @ x1 @ '','' @ y1 @ '']['' @ x2 @ '','' @ y2 @ '']''"

text \<open>The bounds attribute, as a whole, is a rectangle literal.\<close>

definition isRectLiteral :: "string \<Rightarrow> bool" where
  "isRectLiteral s =
     (\<exists>x1 y1 x2 y2. digitString x1 \<and> digitString y1 \<and> digitString x2 \<and> digitString y2 \<and>
        s = rectLiteral x1 y1 x2 y2)"

text \<open>The rectangle literal of \<open>x1\<close>, \<open>y1\<close>, \<open>x2\<close>, \<open>y2\<close> stands in \<open>s\<close> at offset \<open>k\<close>.\<close>

definition rectLiteralAt ::
  "string \<Rightarrow> nat \<Rightarrow> string \<Rightarrow> string \<Rightarrow> string \<Rightarrow> string \<Rightarrow> bool" where
  "rectLiteralAt s k x1 y1 x2 y2 =
     (digitString x1 \<and> digitString y1 \<and> digitString x2 \<and> digitString y2 \<and>
      prefix (rectLiteral x1 y1 x2 y2) (drop k s))"

definition containsRectLiteral :: "string \<Rightarrow> bool" where
  "containsRectLiteral s = (\<exists>k x1 y1 x2 y2. rectLiteralAt s k x1 y1 x2 y2)"

text \<open>
  An example input: a node declaration whose only attribute is \<^verbatim>\<open>bounds\<close>, with the
  given value.
\<close>

definition nodeWithBounds :: "string \<Rightarrow> string" where
  "nodeWithBounds b = ''<node bounds='' @ [CHR 0x22] @ b @ [CHR 0x22] @ ''>''"

section \<open>Element search, in the specification's words\<close>

text \<open>
  A criterion is supplied when the field is present. The element matches a supplied
  criterion by substring containment: without regard to case for the text and the content
  description, with regard to case for the resource id and the class name.
\<close>

definition criterionSupplied :: "Criteria \<Rightarrow> bool" where
  "criterionSupplied criteria =
     (critText criteria \<noteq> None \<or> critResourceId criteria \<noteq> None \<or>
      critContentDescription criteria \<noteq> None \<or> critClassName criteria \<noteq> None)"

text \<open>
  Comparison without regard to case, said without the fold of the code: two characters are
  the same if they are equal, or one is an upper-case ASCII letter (codes 65 to 90) and the
  other the lower-case letter 32 code points above it. \<open>startsWithIgnoringCase s t\<close>: the
  text \<open>s\<close> begins with \<open>t\<close>; \<open>containsIgnoringCase s t\<close>: \<open>t\<close> occurs in \<open>s\<close>.
\<close>

definition asciiUpper :: "char \<Rightarrow> bool" where
  "asciiUpper c = (65 \<le> (of_char c :: nat) \<and> (of_char c :: nat) \<le> 90)"

definition sameIgnoringCase :: "char \<Rightarrow> char \<Rightarrow> bool" where
  "sameIgnoringCase a b =
     (a = b \<or>
      (asciiUpper a \<and> (of_char b :: nat) = of_char a + 32) \<or>
      (asciiUpper b \<and> (of_char a :: nat) = of_char b + 32))"

fun startsWithIgnoringCase :: "string \<Rightarrow> string \<Rightarrow> bool" where
  "startsWithIgnoringCase s [] = True"
| "startsWithIgnoringCase [] (b # t) = False"
| "startsWithIgnoringCase (a # s) (b # t) =
     (sameIgnoringCase a b \<and> startsWithIgnoringCase s t)"

fun containsIgnoringCase :: "string \<Rightarrow> string \<Rightarrow> bool" where
  "containsIgnoringCase [] t = startsWithIgnoringCase [] t"
| "containsIgnoringCase (a # s) t =
     (startsWithIgnoringCase (a # s) t \<or> containsIgnoringCase s t)"

definition suppliedCriterionMatches :: "Criteria \<Rightarrow> UiElement \<Rightarrow> bool" where
  "suppliedCriterionMatches criteria el =
     ((case critText criteria of None \<Rightarrow> False
        | Some t \<Rightarrow> containsIgnoringCase (text' el) t) \<or>
      (case critResourceId criteria of None \<Rightarrow> False
        | Some r \<Rightarrow> sublist r (resourceId el)) \<or>
      (case critContentDescription criteria of None \<Rightarrow> False
        | Some d \<Rightarrow> containsIgnoringCase (contentDescription el) d) \<or>
      (case critClassName criteria of None \<Rightarrow> False
        | Some k \<Rightarrow> sublist k (className el)))"

text \<open>The same, where only a non-empty criterion counts as supplied.\<close>

definition nonEmptyCriterionMatches :: "Criteria \<Rightarrow> UiElement \<Rightarrow> bool" where
  "nonEmptyCriterionMatches criteria el =
     ((case critText criteria of None \<Rightarrow> False
        | Some t \<Rightarrow> t \<noteq> [] \<and> containsIgnoringCase (text' el) t) \<or>
      (case critResourceId criteria of None \<Rightarrow> False
        | Some r \<Rightarrow> r \<noteq> [] \<and> sublist r (resourceId el)) \<or>
      (case critContentDescription criteria of None \<Rightarrow> False
        | Some d \<Rightarrow> d \<noteq> [] \<and> containsIgnoringCase (contentDescription el) d) \<or>
      (case critClassName criteria of None \<Rightarrow> False
        | Some k \<Rightarrow> k \<noteq> [] \<and> sublist k (className el)))"

text \<open>
  The texts that the search folds are ASCII: the text and the content description of an
  element, and of the criteria where they are supplied.
\<close>

definition asciiElement :: "UiElement \<Rightarrow> bool" where
  "asciiElement el = (isAscii (text' el) \<and> isAscii (contentDescription el))"

definition asciiCriteria :: "Criteria \<Rightarrow> bool" where
  "asciiCriteria criteria =
     ((case critText criteria of None \<Rightarrow> True | Some t \<Rightarrow> isAscii t) \<and>
      (case critContentDescription criteria of None \<Rightarrow> True | Some d \<Rightarrow> isAscii d))"

text \<open>An example input: a clickable element with the given text and nothing else.\<close>

definition elementWithText :: "string \<Rightarrow> UiElement" where
  "elementWithText t =
     \<lparr> text' = t, resourceId = [], className = [], contentDescription = [], bounds = [],
       clickable = True, enabled = False, focused = False, selected = False,
       checked = False, scrollable = False, centerX = None, centerY = None \<rparr>"

definition textCriteria :: "string \<Rightarrow> Criteria" where
  "textCriteria t =
     \<lparr> critText = Some t, critResourceId = None, critContentDescription = None,
       critClassName = None \<rparr>"

section \<open>Result shaping of get\_ui\_tree (index.ts)\<close>

text \<open>
  The object reported for one element. \<^verbatim>\<open>JSON.stringify\<close> leaves out a property whose
  value is \<^verbatim>\<open>undefined\<close>, so an omitted \<^verbatim>\<open>center\<close> is \<open>None\<close>.
\<close>

record ReportedElement =
  repText :: string
  repResourceId :: string
  repClassName :: string
  repContentDescription :: string
  repBounds :: string
  repClickable :: bool
  center :: "(nat \<times> nat) option"

text \<open>An optional number used as a condition: \<^verbatim>\<open>undefined\<close> and \<open>0\<close> are falsy.\<close>

definition truthyNumber :: "nat option \<Rightarrow> bool" where
  "truthyNumber v = (case v of None \<Rightarrow> False | Some n \<Rightarrow> n \<noteq> 0)"

text \<open>\<^verbatim>\<open>className.split(".").pop()\<close>: the text after the last dot.\<close>

definition lastSegment :: "string \<Rightarrow> string" where
  "lastSegment s = rev (takeWhile (\<lambda>c. c \<noteq> CHR ''.'') (rev s))"

definition reportElement :: "UiElement \<Rightarrow> ReportedElement" where
  "reportElement el =
     \<lparr> repText = text' el,
       repResourceId = resourceId el,
       repClassName = lastSegment (className el),
       repContentDescription = contentDescription el,
       repBounds = bounds el,
       repClickable = clickable el,
       center =
         (if truthyNumber (centerX el) \<and> truthyNumber (centerY el)
          then (case (centerX el, centerY el) of
                  (Some x, Some y) \<Rightarrow> Some (x, y)
                | _ \<Rightarrow> None)
          else None) \<rparr>"

text \<open>
  The filter of the compressed view,
  \<^verbatim>\<open>el.clickable || el.text || el.contentDescription\<close>; every element is kept otherwise.
\<close>

definition keepElement :: "bool \<Rightarrow> UiElement \<Rightarrow> bool" where
  "keepElement compressed el =
     (if compressed then clickable el \<or> text' el \<noteq> [] \<or> contentDescription el \<noteq> []
      else True)"

text \<open>
  The handler, from the output of the dump command on: \<open>exec\<close> is \<open>None\<close> when the command
  failed. A failure of the command or of the parser is caught and reported as a message
  (\<open>None\<close> here); otherwise the result lists the reported elements.
\<close>

definition get_ui_tree :: "bool \<Rightarrow> string option \<Rightarrow> ReportedElement list option" where
  "get_ui_tree compressed exec =
     (case exec of
        None \<Rightarrow> None
      | Some stdout \<Rightarrow>
          (case parseUiTree stdout of
             Inl e \<Rightarrow> None
           | Inr elements \<Rightarrow>
               Some (map reportElement (filter (keepElement compressed) elements))))"

section \<open>License cache (license.ts)\<close>

text \<open>\<^verbatim>\<open>interface LicenseInfo\<close>, with the optional fields as options.\<close>

record LicenseInfo =
  tier :: MobileDevTier
  valid :: bool
  licenseKey :: "string option"
  expiresAt :: "string option"

text \<open>
  The \<^verbatim>\<open>data\<close> object of the cache file, as \<^verbatim>\<open>JSON.parse\<close> returns it: the interface
  \<^verbatim>\<open>CachedLicense\<close> declares \<^verbatim>\<open>licenseKey\<close> and \<^verbatim>\<open>lastValidated\<close>, but the file may lack
  them, and the code tests for that.
\<close>

record CachedData =
  cachedTier :: MobileDevTier
  cachedLicenseKey :: "string option"
  cachedExpiresAt :: "string option"
  lastValidated :: "int option"

text \<open>
  The content of the cache file: a text on which reading the envelope throws
  (\<^verbatim>\<open>JSON.parse\<close> fails), or an object with its \<^verbatim>\<open>data\<close> and \<^verbatim>\<open>signature\<close> properties
  where it has them. The file system is this one file: \<open>None\<close> when it does not exist.
\<close>

datatype cache_file = Unreadable | Envelope "CachedData option" "string option"

type_synonym file_system = "cache_file option"

text \<open>
  What the code takes from outside the repository: the identifier of the machine
  (\<^verbatim>\<open>getMachineId\<close>, memoized), the HMAC-SHA256 of Node's \<^verbatim>\<open>crypto\<close> module as a hex
  digest, of a key and a payload, and \<^verbatim>\<open>JSON.stringify\<close> on the data object.
\<close>

record platform =
  machineId :: string
  hmacSha256Hex :: "string \<Rightarrow> string \<Rightarrow> string"
  jsonStringify :: "CachedData \<Rightarrow> string"

datatype exception = TimingSafeEqualLength | NoSuchFile | RequestSetupFailed

definition CACHE_TTL_MS :: int where
  "CACHE_TTL_MS = 60 * 60 * 1000"

definition getCacheSecret :: "platform \<Rightarrow> string" where
  "getCacheSecret p = ''mobiledev-'' @ machineId p @ ''-cache-v1''"

definition signCacheData :: "platform \<Rightarrow> CachedData \<Rightarrow> string" where
  "signCacheData p data = hmacSha256Hex p (getCacheSecret p) (jsonStringify p data)"

text \<open>\<^verbatim>\<open>crypto.timingSafeEqual\<close> throws when the two buffers differ in length.\<close>

definition timingSafeEqual :: "string \<Rightarrow> string \<Rightarrow> exception + bool" where
  "timingSafeEqual a b =
     (if length a \<noteq> length b then Inl TimingSafeEqualLength else Inr (a = b))"

definition verifyCacheSignature :: "platform \<Rightarrow> CachedData \<Rightarrow> string \<Rightarrow> exception + bool" where
  "verifyCacheSignature p data signature =
     (let expected = signCacheData p data
      in if length signature \<noteq> length expected then Inr False
         else timingSafeEqual signature expected)"

text \<open>
  \<^verbatim>\<open>fs.unlinkSync(LICENSE_CACHE_FILE)\<close>: it removes the file, and throws when there is no
  such file. The file system of the model is reliable: removing a file that exists and
  writing a file succeed.
\<close>

definition unlinkSync :: "file_system \<Rightarrow> exception + file_system" where
  "unlinkSync fs = (case fs of None \<Rightarrow> Inl NoSuchFile | Some f \<Rightarrow> Inr None)"

text \<open>
  \<^verbatim>\<open>loadCachedLicense\<close>: the result and the file system after the call. Every exception
  inside is caught and gives \<^verbatim>\<open>null\<close>, with the file system as it is at that point.
\<close>

definition loadCachedLicense :: "platform \<Rightarrow> file_system \<Rightarrow> CachedData option \<times> file_system" where
  "loadCachedLicense p fs =
     (case fs of
        None \<Rightarrow> (None, fs)
      | Some Unreadable \<Rightarrow> (None, fs)
      | Some (Envelope rawData rawSignature) \<Rightarrow>
          (case (rawData, rawSignature) of
             (Some data, Some signature) \<Rightarrow>
               if signature \<noteq> [] then
                 (case verifyCacheSignature p data signature of
                    Inl e \<Rightarrow> (None, fs)
                  | Inr True \<Rightarrow> (Some data, fs)
                  | Inr False \<Rightarrow>
                      (case unlinkSync fs of Inl e \<Rightarrow> (None, fs) | Inr fs' \<Rightarrow> (None, fs')))
               else (case unlinkSync fs of Inl e \<Rightarrow> (None, fs) | Inr fs' \<Rightarrow> (None, fs'))
           | _ \<Rightarrow> (case unlinkSync fs of Inl e \<Rightarrow> (None, fs) | Inr fs' \<Rightarrow> (None, fs'))))"

text \<open>\<^verbatim>\<open>saveLicenseCache\<close>: the envelope of the data and its signature replaces the file.\<close>

definition saveLicenseCache :: "platform \<Rightarrow> CachedData \<Rightarrow> file_system \<Rightarrow> file_system" where
  "saveLicenseCache p data fs = Some (Envelope (Some data) (Some (signCacheData p data)))"

section \<open>Entitlement resolution (license.ts)\<close>

definition mapProductToTier :: "string \<Rightarrow> MobileDevTier" where
  "mapProductToTier productName =
     (let name = toLowerCase productName
      in if includes_str name ''advanced'' \<or> includes_str name ''pro'' \<or>
            includes_str name ''basic''
         then Advanced else Free)"

text \<open>
  What the request to the license API comes to: setting the request up throws (the promise
  is rejected), the request fails, times out, the response exceeds the size limit, its
  body does not parse, or the body parses to an object with its \<^verbatim>\<open>valid\<close> flag,
  \<^verbatim>\<open>meta.product_name\<close> and \<^verbatim>\<open>license_key.expires_at\<close>.
\<close>

datatype api_reply =
    RequestThrows
  | RequestError
  | RequestTimeout
  | ResponseTooLarge
  | MalformedBody
  | Body bool "string option" "string option"

text \<open>
  \<^verbatim>\<open>validateWithLemonSqueezy\<close>, given the reply and the time at which it arrives. Only a
  valid reply writes the cache.
\<close>

definition validateWithLemonSqueezy ::
  "platform \<Rightarrow> api_reply \<Rightarrow> int \<Rightarrow> string \<Rightarrow> file_system \<Rightarrow>
     (exception + LicenseInfo option) \<times> file_system" where
  "validateWithLemonSqueezy p reply now key fs =
     (case reply of
        RequestThrows \<Rightarrow> (Inl RequestSetupFailed, fs)
      | RequestError \<Rightarrow> (Inr None, fs)
      | RequestTimeout \<Rightarrow> (Inr None, fs)
      | ResponseTooLarge \<Rightarrow> (Inr None, fs)
      | MalformedBody \<Rightarrow> (Inr None, fs)
      | Body isValid productName expires \<Rightarrow>
          if isValid then
            (let t = mapProductToTier (case productName of None \<Rightarrow> [] | Some n \<Rightarrow> n);
                 info = \<lparr> tier = t, valid = True, licenseKey = Some key, expiresAt = expires \<rparr>
             in (Inr (Some info),
                 saveLicenseCache p
                   \<lparr> cachedTier = t, cachedLicenseKey = Some key, cachedExpiresAt = expires,
                     lastValidated = Some now \<rparr> fs))
          else (Inr None, fs))"

definition freeLicense :: LicenseInfo where
  "freeLicense = \<lparr> tier = Free, valid = True, licenseKey = None, expiresAt = None \<rparr>"

text \<open>
  The body of the \<^verbatim>\<open>try\<close> block of \<^verbatim>\<open>checkLicense\<close>: \<open>now\<close> is \<^verbatim>\<open>Date.now()\<close> at the
  check, \<open>reply\<close> and \<open>replyTime\<close> describe the request if one is made.
\<close>

definition checkLicense_try ::
  "platform \<Rightarrow> int \<Rightarrow> api_reply \<Rightarrow> int \<Rightarrow> file_system \<Rightarrow>
     (exception + LicenseInfo) \<times> file_system" where
  "checkLicense_try p now reply replyTime fs =
     (case loadCachedLicense p fs of (cached, fs1) \<Rightarrow>
       (case cached of
          None \<Rightarrow> (Inr freeLicense, fs1)
        | Some c \<Rightarrow>
            (case cachedLicenseKey c of
               None \<Rightarrow> (Inr freeLicense, fs1)
             | Some key \<Rightarrow>
                 if key = [] then (Inr freeLicense, fs1)
                 else
                   (let lastCheck = (case lastValidated c of None \<Rightarrow> 0 | Some t \<Rightarrow> t)
                    in if now - lastCheck < CACHE_TTL_MS then
                         (Inr \<lparr> tier = cachedTier c, valid = True, licenseKey = Some key,
                                expiresAt = cachedExpiresAt c \<rparr>, fs1)
                       else
                         (case validateWithLemonSqueezy p reply replyTime key fs1 of
                            (Inl e, fs2) \<Rightarrow> (Inl e, fs2)
                          | (Inr (Some validated), fs2) \<Rightarrow> (Inr validated, fs2)
                          | (Inr None, fs2) \<Rightarrow>
                              (Inr freeLicense,
                               case unlinkSync fs2 of Inl e \<Rightarrow> fs2 | Inr fs3 \<Rightarrow> fs3))))))"

text \<open>\<^verbatim>\<open>checkLicense\<close>: the \<^verbatim>\<open>catch\<close> turns any exception into the free license.\<close>

definition checkLicense ::
  "platform \<Rightarrow> int \<Rightarrow> api_reply \<Rightarrow> int \<Rightarrow> file_system \<Rightarrow> LicenseInfo \<times> file_system" where
  "checkLicense p now reply replyTime fs =
     (case checkLicense_try p now reply replyTime fs of
        (Inl e, fs') \<Rightarrow> (freeLicense, fs')
      | (Inr info, fs') \<Rightarrow> (info, fs'))"

text \<open>
  An example platform, for concrete runs: the keyed hash is replaced by the key followed
  by the payload, and the serialization by the license key of the record.
\<close>

definition examplePlatform :: platform where
  "examplePlatform =
     \<lparr> machineId = ''host'',
       hmacSha256Hex = (\<lambda>key payload. key @ payload),
       jsonStringify = (\<lambda>d. case cachedLicenseKey d of None \<Rightarrow> [] | Some k \<Rightarrow> k) \<rparr>"

definition signedCache :: "platform \<Rightarrow> CachedData \<Rightarrow> file_system" where
  "signedCache p data = Some (Envelope (Some data) (Some (signCacheData p data)))"

section \<open>Waiting for an element (index.ts, wait\_for\_element)\<close>

text \<open>
  The arguments of the tool that the handler reads. \<^verbatim>\<open>timeout\<close> is a JSON number, so a
  real; a missing argument is \<open>None\<close>.
\<close>

record WaitArgs =
  argTimeout :: "real option"
  argText :: "string option"
  argResourceId :: "string option"
  argContentDescription :: "string option"

definition MAX_TIMEOUT :: real where
  "MAX_TIMEOUT = 60000"

definition pollInterval :: nat where
  "pollInterval = 500"

definition MAX_SEARCH_LEN :: nat where
  "MAX_SEARCH_LEN = 500"

text \<open>\<^verbatim>\<open>(args.timeout as number) || 5000\<close>: a missing timeout and \<open>0\<close> are falsy.\<close>

definition requestedTimeout :: "WaitArgs \<Rightarrow> real" where
  "requestedTimeout args =
     (case argTimeout args of None \<Rightarrow> 5000 | Some t \<Rightarrow> if t = 0 then 5000 else t)"

text \<open>\<^verbatim>\<open>Math.max(1000, Math.min(requestedTimeout, MAX_TIMEOUT))\<close>\<close>

definition effectiveTimeout :: "WaitArgs \<Rightarrow> real" where
  "effectiveTimeout args = max 1000 (min (requestedTimeout args) MAX_TIMEOUT)"

text \<open>\<^verbatim>\<open>searchText && searchText.length > MAX_SEARCH_LEN\<close>\<close>

definition tooLong :: "string option \<Rightarrow> bool" where
  "tooLong v = (case v of None \<Rightarrow> False | Some s \<Rightarrow> s \<noteq> [] \<and> length s > MAX_SEARCH_LEN)"

definition searchParametersTooLong :: "WaitArgs \<Rightarrow> bool" where
  "searchParametersTooLong args =
     (tooLong (argText args) \<or> tooLong (argResourceId args) \<or>
      tooLong (argContentDescription args))"

text \<open>The criteria handed to \<^verbatim>\<open>findElementInTree\<close>; the handler passes no class name.\<close>

definition searchCriteria :: "WaitArgs \<Rightarrow> Criteria" where
  "searchCriteria args =
     \<lparr> critText = argText args, critResourceId = argResourceId args,
       critContentDescription = argContentDescription args, critClassName = None \<rparr>"

text \<open>
  What the world does during one iteration of the polling loop: the output of the dump
  command (\<open>None\<close> when the command fails or times out), the milliseconds the command
  takes, and the milliseconds by which \<^verbatim>\<open>sleep(pollInterval)\<close> oversleeps. Time is counted
  in milliseconds since \<^verbatim>\<open>startTime\<close>.
\<close>

record poll =
  dump :: "string option"
  execMs :: nat
  sleepExtraMs :: nat

text \<open>The three results of the handler, with the fields of the JSON text they carry.\<close>

datatype wait_result =
    SearchParametersTooLongResult
  | Found nat string "nat option" "nat option"
  | TimedOut real

text \<open>
  The \<^verbatim>\<open>try\<close> block of one iteration: a failure of the command or of the parser is caught
  and counts as no match.
\<close>

definition pollOnce :: "Criteria \<Rightarrow> string option \<Rightarrow> UiElement option" where
  "pollOnce criteria d =
     (case d of
        None \<Rightarrow> None
      | Some stdout \<Rightarrow>
          (case parseUiTree stdout of
             Inl e \<Rightarrow> None
           | Inr elements \<Rightarrow> findElementInTree elements criteria))"

lemma elapsed_below_timeout: "real elapsed < timeout \<Longrightarrow> elapsed < nat \<lceil>timeout\<rceil>"
  by linarith

text \<open>
  The \<^verbatim>\<open>while\<close> loop: \<open>i\<close> counts the iterations, \<open>elapsed\<close> is
  \<^verbatim>\<open>Date.now() - startTime\<close> when the condition is tested.
\<close>

function waitLoop :: "Criteria \<Rightarrow> real \<Rightarrow> (nat \<Rightarrow> poll) \<Rightarrow> nat \<Rightarrow> nat \<Rightarrow> wait_result" where
  "waitLoop criteria timeout world i elapsed =
     (if real elapsed < timeout then
        (case pollOnce criteria (dump (world i)) of
           Some found \<Rightarrow>
             Found (elapsed + execMs (world i)) (text' found) (centerX found) (centerY found)
         | None \<Rightarrow>
             waitLoop criteria timeout world (Suc i)
               (elapsed + execMs (world i) + pollInterval + sleepExtraMs (world i)))
      else TimedOut timeout)"
  by pat_completeness auto
termination
  by (relation "measure (\<lambda>(criteria, timeout, world, i, elapsed). nat \<lceil>timeout\<rceil> - elapsed)")
     (auto simp: pollInterval_def dest: elapsed_below_timeout)

definition wait_for_element :: "WaitArgs \<Rightarrow> (nat \<Rightarrow> poll) \<Rightarrow> wait_result" where
  "wait_for_element args world =
     (if searchParametersTooLong args then SearchParametersTooLongResult
      else waitLoop (searchCriteria args) (effectiveTimeout args) world 0 0)"

text \<open>The time since \<^verbatim>\<open>startTime\<close> at which iteration \<open>k\<close> tests the loop condition.\<close>

fun pollStart :: "(nat \<Rightarrow> poll) \<Rightarrow> nat \<Rightarrow> nat" where
  "pollStart world 0 = 0"
| "pollStart world (Suc k) =
     pollStart world k + execMs (world k) + pollInterval + sleepExtraMs (world k)"

text \<open>Example inputs: a world in which every dump command fails after five seconds.\<close>

definition deadWorld :: "nat \<Rightarrow> poll" where
  "deadWorld i = \<lparr> dump = None, execMs = 5000, sleepExtraMs = 0 \<rparr>"

definition waitForText :: "real \<Rightarrow> string \<Rightarrow> WaitArgs" where
  "waitForText t s =
     \<lparr> argTimeout = Some t, argText = Some s, argResourceId = None,
       argContentDescription = None \<rparr>"

text \<open>
  A dump with one node whose text is \<^verbatim>\<open>Submit\<close>, and a world in which the first two dump
  commands fail and every later one returns that dump.
\<close>

definition submitDump :: string where
  "submitDump = ''<node text='' @ [CHR 0x22] @ ''Submit'' @ [CHR 0x22] @ ''>''"

definition appearingWorld :: "nat \<Rightarrow> poll" where
  "appearingWorld i =
     \<lparr> dump = (if i < 2 then None else Some submitDump), execMs = 100, sleepExtraMs = 0 \<rparr>"

text \<open>
  A world in which every dump command takes five seconds, the first eleven fail and the
  later ones return that dump: the target appears 60.5 seconds after the start.
\<close>

definition lateWorld :: "nat \<Rightarrow> poll" where
  "lateWorld i =
     \<lparr> dump = (if i < 11 then None else Some submitDump), execMs = 5000, sleepExtraMs = 0 \<rparr>"

section \<open>Properties of the tool access policy\<close>

lemma FREE_subset_ADVANCED: "set FREE_TOOLS \<subseteq> set ADVANCED_TOOLS"
  unfolding ADVANCED_TOOLS_def set_append by (rule Un_upper1)

text \<open>
  Claim C5. Entitlement is monotone: every tool the free tier may call, the advanced tier
  may call as well; the free tool set is contained in the advanced tool set; and a tool
  name that is in neither set is denied for both tiers.
\<close>

theorem canAccessTool_monotone:
  "(canAccessTool T Free \<longrightarrow> canAccessTool T Advanced) \<and>
   set FREE_TOOLS \<subseteq> set ADVANCED_TOOLS \<and>
   (\<not> includes_list FREE_TOOLS T \<and> \<not> includes_list ADVANCED_TOOLS T \<longrightarrow>
      \<not> canAccessTool T Free \<and> \<not> canAccessTool T Advanced)"
proof (intro conjI impI)
  assume "canAccessTool T Free"
  then have "includes_list FREE_TOOLS T"
    by (simp add: canAccessTool_def split: if_splits)
  then show "canAccessTool T Advanced"
    by (simp add: canAccessTool_def)
next
  show "set FREE_TOOLS \<subseteq> set ADVANCED_TOOLS"
    by (rule FREE_subset_ADVANCED)
next
  assume "\<not> includes_list FREE_TOOLS T \<and> \<not> includes_list ADVANCED_TOOLS T"
  then show "\<not> canAccessTool T Free" by (simp add: canAccessTool_def)
next
  assume "\<not> includes_list FREE_TOOLS T \<and> \<not> includes_list ADVANCED_TOOLS T"
  then show "\<not> canAccessTool T Advanced" by (simp add: canAccessTool_def)
qed

theorem canAccessTool_monotone_witness:
  "canAccessTool ''list_devices'' Free \<and> canAccessTool ''list_devices'' Advanced \<and>
   \<not> includes_list FREE_TOOLS ''unknown_tool'' \<and>
   \<not> includes_list ADVANCED_TOOLS ''unknown_tool'' \<and>
   \<not> canAccessTool ''unknown_tool'' Free \<and> \<not> canAccessTool ''unknown_tool'' Advanced \<and>
   \<not> canAccessTool ''get_ui_tree'' Free \<and> canAccessTool ''get_ui_tree'' Advanced"
  using canAccessTool_monotone [of "''list_devices''"]
    canAccessTool_monotone [of "''unknown_tool''"]
  by (simp add: canAccessTool_def includes_list_def FREE_TOOLS_def ADVANCED_TOOLS_def)

section \<open>Properties of the parser\<close>

text \<open>
  The recursive equations of the two loops are used one step at a time, by name.
\<close>

declare parseLoop.simps [simp del]
declare nodeMatches.simps [simp del]

text \<open>
  The loop adds, to the elements it starts from, the elements of the next node
  declarations of the text, as many as the ceiling leaves room for.
\<close>

lemma parseLoop_nodeMatches:
  "parseLoop xml elements =
     elements @ map parseNode (take (MAX_ELEMENTS - length elements) (nodeMatches xml))"
proof (induction xml elements rule: parseLoop.induct)
  case (1 xml elements)
  show ?case
  proof (cases "nodeRegex_exec xml")
    case None
    then show ?thesis
      by (simp add: parseLoop.simps [of xml] nodeMatches.simps [of xml])
  next
    case (Some m)
    then obtain node rest where ex: "nodeRegex_exec xml = Some (node, rest)"
      by (cases m) simp
    show ?thesis
    proof (cases "length elements \<ge> MAX_ELEMENTS")
      case True
      with ex show ?thesis
        by (simp add: parseLoop.simps [of xml])
    next
      case False
      then have pos: "MAX_ELEMENTS - length elements = Suc (MAX_ELEMENTS - Suc (length elements))"
        by simp
      have step: "parseLoop xml elements = parseLoop rest (elements @ [parseNode node])"
        using ex False by (simp add: parseLoop.simps [of xml])
      have ih: "parseLoop rest (elements @ [parseNode node]) =
          (elements @ [parseNode node]) @
          map parseNode
            (take (MAX_ELEMENTS - length (elements @ [parseNode node])) (nodeMatches rest))"
        by (rule "1.IH" [OF ex refl False])
      have unf: "nodeMatches xml = node # nodeMatches rest"
        using ex by (simp add: nodeMatches.simps [of xml])
      show ?thesis
        unfolding step ih unf pos by simp
    qed
  qed
qed

lemma parseUiTree_nodeMatches:
  "length xml \<le> MAX_XML_SIZE \<Longrightarrow>
   parseUiTree xml = Inr (map parseNode (take MAX_ELEMENTS (nodeMatches xml)))"
  by (simp add: parseUiTree_def parseLoop_nodeMatches)

lemma parseUiTree_elements:
  assumes "parseUiTree xml = Inr elements" and "el \<in> set elements"
  shows "\<exists>node. el = parseNode node"
proof -
  from assms(1) have "elements = parseLoop xml []"
    by (simp add: parseUiTree_def split: if_splits)
  then have "elements = map parseNode (take MAX_ELEMENTS (nodeMatches xml))"
    by (simp add: parseLoop_nodeMatches)
  with assms(2) show ?thesis by auto
qed

text \<open>Two families of concrete dumps: one with no node at all, one with \<open>n\<close> nodes.\<close>

lemma nodeRegex_exec_no_node: "nodeRegex_exec (replicate n CHR ''a'') = None"
  by (induction n) (simp_all add: matchNodeAt_def)

lemma parseLoop_no_node: "parseLoop (replicate n CHR ''a'') [] = []"
  by (subst parseLoop.simps) (simp add: nodeRegex_exec_no_node)

lemma nodeRegex_exec_node_a:
  "nodeRegex_exec (''<node a>'' @ s) = Some (''<node a>'', s)"
  by (simp add: matchNodeAt_def notGt_def)

lemma nodeMatches_replicate:
  "nodeMatches (concat (replicate n ''<node a>'')) = replicate n ''<node a>''"
proof (induction n)
  case 0
  show ?case by (simp add: nodeMatches.simps [of "[]"])
next
  case (Suc n)
  have "nodeMatches (concat (replicate (Suc n) ''<node a>''))
      = nodeMatches (''<node a>'' @ concat (replicate n ''<node a>''))" by simp
  also have "\<dots> = ''<node a>'' # nodeMatches (concat (replicate n ''<node a>''))"
    by (subst nodeMatches.simps) (simp only: nodeRegex_exec_node_a option.case prod.case)
  finally show ?case using Suc by simp
qed

lemma length_concat_replicate:
  "length (concat (replicate n xs)) = n * length xs"
  by (induction n) simp_all

text \<open>
  Claim C7. \<^verbatim>\<open>parseUiTree\<close> fails with the size error exactly when the dump is longer than
  \<^verbatim>\<open>MAX_XML_SIZE\<close> (10 MB), and then there is no element list at all; at or below the
  ceiling it returns an element list.
\<close>

theorem parseUiTree_size_ceiling:
  "(parseUiTree xml = Inl XmlDumpExceedsMaximumSize \<longleftrightarrow> length xml > MAX_XML_SIZE) \<and>
   ((\<exists>elements. parseUiTree xml = Inr elements) \<longleftrightarrow> length xml \<le> MAX_XML_SIZE) \<and>
   MAX_XML_SIZE = 10485760"
  by (auto simp: parseUiTree_def MAX_XML_SIZE_def)

theorem parseUiTree_size_ceiling_witness:
  "parseUiTree (replicate 10485761 CHR ''a'') = Inl XmlDumpExceedsMaximumSize \<and>
   parseUiTree (replicate 10485760 CHR ''a'') = Inr []"
proof -
  have big: "length (replicate 10485761 CHR ''a'') > MAX_XML_SIZE"
    by (simp add: MAX_XML_SIZE_def)
  have "parseUiTree (replicate 10485761 CHR ''a'') = Inl XmlDumpExceedsMaximumSize"
    using parseUiTree_size_ceiling [of "replicate 10485761 CHR ''a''"] big by blast
  moreover have "parseUiTree (replicate 10485760 CHR ''a'') = Inr []"
    by (simp add: parseUiTree_def MAX_XML_SIZE_def parseLoop_no_node)
  ultimately show ?thesis by simp
qed

text \<open>
  Claim C6. A dump within the size ceiling that holds more node declarations than
  \<^verbatim>\<open>MAX_ELEMENTS\<close> is parsed without an error into exactly \<^verbatim>\<open>MAX_ELEMENTS\<close> elements: the
  elements of its first \<^verbatim>\<open>MAX_ELEMENTS\<close> node declarations, in document order.
\<close>

theorem parseUiTree_truncates:
  assumes "length xml \<le> MAX_XML_SIZE" and "length (nodeMatches xml) > MAX_ELEMENTS"
  shows "\<exists>elements. parseUiTree xml = Inr elements \<and> length elements = MAX_ELEMENTS \<and>
           elements = map parseNode (take MAX_ELEMENTS (nodeMatches xml))"
  using assms by (simp add: parseUiTree_nodeMatches)

theorem parseUiTree_truncates_witness:
  "length (concat (replicate 50001 ''<node a>'')) \<le> MAX_XML_SIZE \<and>
   length (nodeMatches (concat (replicate 50001 ''<node a>''))) > MAX_ELEMENTS \<and>
   (\<exists>elements. parseUiTree (concat (replicate 50001 ''<node a>'')) = Inr elements \<and>
      length elements = 50000 \<and>
      elements = replicate 50000 (parseNode ''<node a>''))"
proof -
  have a: "length (concat (replicate 50001 ''<node a>'')) \<le> MAX_XML_SIZE"
    by (simp add: length_concat_replicate MAX_XML_SIZE_def)
  have b: "length (nodeMatches (concat (replicate 50001 ''<node a>''))) > MAX_ELEMENTS"
    by (simp add: nodeMatches_replicate MAX_ELEMENTS_def)
  obtain elements where
    e: "parseUiTree (concat (replicate 50001 ''<node a>'')) = Inr elements"
      "length elements = MAX_ELEMENTS"
      "elements =
         map parseNode (take MAX_ELEMENTS (nodeMatches (concat (replicate 50001 ''<node a>''))))"
    using parseUiTree_truncates [OF a b] by blast
  have "elements = replicate 50000 (parseNode ''<node a>'')"
    unfolding e(3) nodeMatches_replicate MAX_ELEMENTS_def by simp
  moreover have "length elements = 50000"
    using e(2) by (simp add: MAX_ELEMENTS_def)
  ultimately show ?thesis using a b e(1) by blast
qed

section \<open>Properties of the computed centers\<close>

lemma lit_Some_iff: "lit c s = Some r \<longleftrightarrow> s = c # r"
  by (auto simp: lit_def split: list.splits)

lemma digits1_SomeD:
  assumes "digits1 s = Some (d, r)"
  shows "digitString d \<and> s = d @ r"
proof -
  from assms have d: "d = takeWhile isDigit s" and r: "r = dropWhile isDigit s" and ne: "d \<noteq> []"
    by (auto simp: digits1_def split: if_splits)
  have "list_all isDigit (takeWhile isDigit s)"
    by (simp add: list_all_iff) (meson set_takeWhileD)
  with d r ne show ?thesis by (simp add: digitString_def)
qed

lemma digits1_append:
  assumes "digitString d" and "\<not> isDigit c"
  shows "digits1 (d @ c # r) = Some (d, c # r)"
proof -
  from assms(1) have all: "\<forall>x\<in>set d. isDigit x" and ne: "d \<noteq> []"
    by (simp_all add: digitString_def list_all_iff)
  from all assms(2) have "takeWhile isDigit (d @ c # r) = d"
    and "dropWhile isDigit (d @ c # r) = c # r"
    by simp_all
  with ne show ?thesis by (simp add: digits1_def)
qed

lemma not_digit_comma: "\<not> isDigit CHR '',''" and not_digit_close: "\<not> isDigit CHR '']''"
  by (simp_all add: isDigit_def)

lemma boundsMatchAt_Some_iff:
  "boundsMatchAt s = Some (x1, y1, x2, y2) \<longleftrightarrow>
     digitString x1 \<and> digitString y1 \<and> digitString x2 \<and> digitString y2 \<and>
     prefix (rectLiteral x1 y1 x2 y2) s"
proof
  assume "boundsMatchAt s = Some (x1, y1, x2, y2)"
  then obtain r1 r2 r3 r4 r5 r6 r7 r8 r9 r10 where
    "lit CHR ''['' s = Some r1" "digits1 r1 = Some (x1, r2)"
    "lit CHR '','' r2 = Some r3" "digits1 r3 = Some (y1, r4)"
    "lit CHR '']'' r4 = Some r5" "lit CHR ''['' r5 = Some r6"
    "digits1 r6 = Some (x2, r7)" "lit CHR '','' r7 = Some r8"
    "digits1 r8 = Some (y2, r9)" "lit CHR '']'' r9 = Some r10"
    by (auto simp: boundsMatchAt_def split: option.splits prod.splits)
  then show "digitString x1 \<and> digitString y1 \<and> digitString x2 \<and> digitString y2 \<and>
     prefix (rectLiteral x1 y1 x2 y2) s"
    by (auto simp: lit_Some_iff rectLiteral_def dest!: digits1_SomeD)
next
  assume a: "digitString x1 \<and> digitString y1 \<and> digitString x2 \<and> digitString y2 \<and>
     prefix (rectLiteral x1 y1 x2 y2) s"
  then obtain post where s: "s = rectLiteral x1 y1 x2 y2 @ post"
    by (auto simp: prefix_def)
  have l1: "lit CHR ''['' s = Some (x1 @ CHR '','' # y1 @ '']['' @ x2 @ '','' @ y2 @ '']'' @ post)"
    by (simp add: s rectLiteral_def lit_def)
  have d1: "digits1 (x1 @ CHR '','' # y1 @ '']['' @ x2 @ '','' @ y2 @ '']'' @ post)
      = Some (x1, CHR '','' # y1 @ '']['' @ x2 @ '','' @ y2 @ '']'' @ post)"
    using a by (intro digits1_append not_digit_comma) simp
  have d2: "digits1 (y1 @ CHR '']'' # ''['' @ x2 @ '','' @ y2 @ '']'' @ post)
      = Some (y1, CHR '']'' # ''['' @ x2 @ '','' @ y2 @ '']'' @ post)"
    using a by (intro digits1_append not_digit_close) simp
  have d3: "digits1 (x2 @ CHR '','' # y2 @ '']'' @ post)
      = Some (x2, CHR '','' # y2 @ '']'' @ post)"
    using a by (intro digits1_append not_digit_comma) simp
  have d4: "digits1 (y2 @ CHR '']'' # post) = Some (y2, CHR '']'' # post)"
    using a by (intro digits1_append not_digit_close) simp
  show "boundsMatchAt s = Some (x1, y1, x2, y2)"
    unfolding boundsMatchAt_def l1 option.case d1 prod.case
    using d2 d3 d4 by (simp add: lit_def)
qed

lemma boundsMatch_Some_iff:
  "boundsMatch s = Some m \<longleftrightarrow>
     (\<exists>k. boundsMatchAt (drop k s) = Some m \<and> (\<forall>j<k. boundsMatchAt (drop j s) = None))"
proof (induction s)
  case Nil
  show ?case by (simp add: boundsMatchAt_def lit_def)
next
  case (Cons c cs)
  show ?case
  proof (cases "boundsMatchAt (c # cs)")
    case (Some m')
    have "(\<exists>k. boundsMatchAt (drop k (c # cs)) = Some m \<and>
            (\<forall>j<k. boundsMatchAt (drop j (c # cs)) = None)) \<longleftrightarrow> m' = m"
    proof
      assume "\<exists>k. boundsMatchAt (drop k (c # cs)) = Some m \<and>
            (\<forall>j<k. boundsMatchAt (drop j (c # cs)) = None)"
      then obtain k where k: "boundsMatchAt (drop k (c # cs)) = Some m"
        "\<forall>j<k. boundsMatchAt (drop j (c # cs)) = None" by blast
      have "k = 0"
      proof (rule ccontr)
        assume "k \<noteq> 0"
        then have "boundsMatchAt (drop 0 (c # cs)) = None" using k(2) by blast
        with Some show False by simp
      qed
      with k(1) Some show "m' = m" by simp
    next
      assume "m' = m"
      with Some have "boundsMatchAt (drop 0 (c # cs)) = Some m" by simp
      then show "\<exists>k. boundsMatchAt (drop k (c # cs)) = Some m \<and>
            (\<forall>j<k. boundsMatchAt (drop j (c # cs)) = None)"
        by (intro exI [of _ 0]) simp
    qed
    with Some show ?thesis by simp
  next
    case None
    have "(\<exists>k. boundsMatchAt (drop k (c # cs)) = Some m \<and>
            (\<forall>j<k. boundsMatchAt (drop j (c # cs)) = None)) \<longleftrightarrow>
          (\<exists>k. boundsMatchAt (drop k cs) = Some m \<and>
            (\<forall>j<k. boundsMatchAt (drop j cs) = None))" (is "?L \<longleftrightarrow> ?R")
    proof
      assume ?L
      then obtain k where k: "boundsMatchAt (drop k (c # cs)) = Some m"
        "\<forall>j<k. boundsMatchAt (drop j (c # cs)) = None" by blast
      from k(1) None have "k \<noteq> 0" by (cases k) auto
      then obtain k' where k': "k = Suc k'" by (cases k) auto
      have "boundsMatchAt (drop k' cs) = Some m" using k(1) k' by simp
      moreover have "\<forall>j<k'. boundsMatchAt (drop j cs) = None"
      proof (intro allI impI)
        fix j assume "j < k'"
        then have "Suc j < k" using k' by simp
        with k(2) have "boundsMatchAt (drop (Suc j) (c # cs)) = None" by blast
        then show "boundsMatchAt (drop j cs) = None" by simp
      qed
      ultimately show ?R by blast
    next
      assume ?R
      then obtain k where k: "boundsMatchAt (drop k cs) = Some m"
        "\<forall>j<k. boundsMatchAt (drop j cs) = None" by blast
      have "boundsMatchAt (drop (Suc k) (c # cs)) = Some m" using k(1) by simp
      moreover have "\<forall>j<Suc k. boundsMatchAt (drop j (c # cs)) = None"
      proof (intro allI impI)
        fix j assume "j < Suc k"
        show "boundsMatchAt (drop j (c # cs)) = None"
        proof (cases j)
          case 0
          with None show ?thesis by simp
        next
          case (Suc j')
          with \<open>j < Suc k\<close> k(2) show ?thesis by simp
        qed
      qed
      ultimately show ?L by blast
    qed
    with None Cons.IH show ?thesis by simp
  qed
qed

lemma boundsMatch_None_iff:
  "boundsMatch s = None \<longleftrightarrow> (\<forall>k. boundsMatchAt (drop k s) = None)"
proof
  assume n: "boundsMatch s = None"
  show "\<forall>k. boundsMatchAt (drop k s) = None"
  proof (rule ccontr)
    assume "\<not> (\<forall>k. boundsMatchAt (drop k s) = None)"
    then have ex: "\<exists>k. boundsMatchAt (drop k s) \<noteq> None" by blast
    define k where "k = (LEAST k. boundsMatchAt (drop k s) \<noteq> None)"
    have k1: "boundsMatchAt (drop k s) \<noteq> None"
      unfolding k_def using ex by (rule LeastI_ex)
    have k2: "\<forall>j<k. boundsMatchAt (drop j s) = None"
      unfolding k_def using not_less_Least by blast
    from k1 obtain m where "boundsMatchAt (drop k s) = Some m" by auto
    with k2 have "boundsMatch s = Some m" unfolding boundsMatch_Some_iff by blast
    with n show False by simp
  qed
next
  assume a: "\<forall>k. boundsMatchAt (drop k s) = None"
  show "boundsMatch s = None"
  proof (rule ccontr)
    assume "boundsMatch s \<noteq> None"
    then obtain m where "boundsMatch s = Some m" by auto
    then obtain k where "boundsMatchAt (drop k s) = Some m"
      unfolding boundsMatch_Some_iff by blast
    with a show False by simp
  qed
qed

lemma parseNode_bounds: "bounds (parseNode node) = getText node ''bounds''"
  by (simp add: parseNode_def Let_def split: option.splits prod.splits)

lemma parseNode_centerX:
  "centerX (parseNode node) =
     (case boundsMatch (getText node ''bounds'') of
        None \<Rightarrow> None
      | Some (x1, y1, x2, y2) \<Rightarrow> Some ((Number x1 + Number x2) div 2))"
  by (simp add: parseNode_def Let_def split: option.splits prod.splits)

lemma parseNode_centerY:
  "centerY (parseNode node) =
     (case boundsMatch (getText node ''bounds'') of
        None \<Rightarrow> None
      | Some (x1, y1, x2, y2) \<Rightarrow> Some ((Number y1 + Number y2) div 2))"
  by (simp add: parseNode_def Let_def split: option.splits prod.splits)

lemma rectLiteralAt_iff:
  "rectLiteralAt s k x1 y1 x2 y2 \<longleftrightarrow> boundsMatchAt (drop k s) = Some (x1, y1, x2, y2)"
  by (simp add: rectLiteralAt_def boundsMatchAt_Some_iff)

lemma containsRectLiteral_iff: "containsRectLiteral s \<longleftrightarrow> boundsMatch s \<noteq> None"
proof -
  have "containsRectLiteral s \<longleftrightarrow> (\<exists>k m. boundsMatchAt (drop k s) = Some m)"
    by (auto simp: containsRectLiteral_def rectLiteralAt_iff)
  also have "\<dots> \<longleftrightarrow> \<not> (\<forall>k. boundsMatchAt (drop k s) = None)"
    by auto
  finally show ?thesis by (simp add: boundsMatch_None_iff)
qed

lemma boundsMatch_leftmost:
  assumes "rectLiteralAt s k x1 y1 x2 y2"
    and "\<forall>j<k. \<forall>a b c d. \<not> rectLiteralAt s j a b c d"
  shows "boundsMatch s = Some (x1, y1, x2, y2)"
proof -
  from assms(1) have "boundsMatchAt (drop k s) = Some (x1, y1, x2, y2)"
    by (simp add: rectLiteralAt_iff)
  moreover have "\<forall>j<k. boundsMatchAt (drop j s) = None"
  proof (intro allI impI)
    fix j assume "j < k"
    with assms(2) have "\<forall>a b c d. boundsMatchAt (drop j s) \<noteq> Some (a, b, c, d)"
      by (simp add: rectLiteralAt_iff)
    then show "boundsMatchAt (drop j s) = None"
      by (cases "boundsMatchAt (drop j s)") auto
  qed
  ultimately show ?thesis unfolding boundsMatch_Some_iff by blast
qed

lemma parseNode_center:
  "(centerX (parseNode node) \<noteq> None \<longleftrightarrow> containsRectLiteral (bounds (parseNode node))) \<and>
   (centerY (parseNode node) \<noteq> None \<longleftrightarrow> containsRectLiteral (bounds (parseNode node))) \<and>
   (\<forall>k x1 y1 x2 y2.
      rectLiteralAt (bounds (parseNode node)) k x1 y1 x2 y2 \<and>
      (\<forall>j<k. \<forall>a b c d. \<not> rectLiteralAt (bounds (parseNode node)) j a b c d) \<and>
      Number x1 + Number x2 \<le> MAX_SAFE_INTEGER \<and> Number y1 + Number y2 \<le> MAX_SAFE_INTEGER \<longrightarrow>
      centerX (parseNode node) = Some ((Number x1 + Number x2) div 2) \<and>
      centerY (parseNode node) = Some ((Number y1 + Number y2) div 2))"
proof (intro conjI allI impI)
  show "centerX (parseNode node) \<noteq> None \<longleftrightarrow> containsRectLiteral (bounds (parseNode node))"
    by (simp add: parseNode_bounds parseNode_centerX containsRectLiteral_iff
        split: option.splits prod.splits)
  show "centerY (parseNode node) \<noteq> None \<longleftrightarrow> containsRectLiteral (bounds (parseNode node))"
    by (simp add: parseNode_bounds parseNode_centerY containsRectLiteral_iff
        split: option.splits prod.splits)
next
  fix k x1 y1 x2 y2
  assume a: "rectLiteralAt (bounds (parseNode node)) k x1 y1 x2 y2 \<and>
      (\<forall>j<k. \<forall>a b c d. \<not> rectLiteralAt (bounds (parseNode node)) j a b c d) \<and>
      Number x1 + Number x2 \<le> MAX_SAFE_INTEGER \<and> Number y1 + Number y2 \<le> MAX_SAFE_INTEGER"
  then have m: "boundsMatch (getText node ''bounds'') = Some (x1, y1, x2, y2)"
    using boundsMatch_leftmost [of "bounds (parseNode node)" k x1 y1 x2 y2]
    by (simp add: parseNode_bounds)
  show "centerX (parseNode node) = Some ((Number x1 + Number x2) div 2)"
    by (simp add: parseNode_centerX m)
  show "centerY (parseNode node) = Some ((Number y1 + Number y2) div 2)"
    by (simp add: parseNode_centerY m)
qed

lemma nodeMatches_Nil: "nodeMatches [] = []"
  by (simp add: nodeMatches.simps [of "[]"])

lemma nodeRegex_exec_nodeWithBounds:
  assumes "CHR ''>'' \<notin> set b"
  shows "nodeRegex_exec (nodeWithBounds b @ rest) = Some (nodeWithBounds b, rest)"
proof -
  have tw: "takeWhile notGt ('' bounds='' @ [CHR 0x22] @ b @ [CHR 0x22] @ ''>'' @ rest)
      = '' bounds='' @ [CHR 0x22] @ b @ [CHR 0x22]"
    using assms by (simp add: notGt_def takeWhile_append)
  have dw: "dropWhile notGt ('' bounds='' @ [CHR 0x22] @ b @ [CHR 0x22] @ ''>'' @ rest)
      = ''>'' @ rest"
    using assms by (simp add: notGt_def dropWhile_append)
  have "matchNodeAt (nodeWithBounds b @ rest) = Some (nodeWithBounds b, rest)"
    using tw dw by (simp add: matchNodeAt_def nodeWithBounds_def notGt_def)
  then show ?thesis by (simp add: nodeWithBounds_def)
qed

lemma nodeMatches_nodeWithBounds:
  "CHR ''>'' \<notin> set b \<Longrightarrow>
   nodeMatches (nodeWithBounds b @ rest) = nodeWithBounds b # nodeMatches rest"
  by (subst nodeMatches.simps) (simp add: nodeRegex_exec_nodeWithBounds)

lemma nodeMatches_nodeWithBounds_single:
  "CHR ''>'' \<notin> set b \<Longrightarrow> nodeMatches (nodeWithBounds b) = [nodeWithBounds b]"
  using nodeMatches_nodeWithBounds [of b "[]"] by (simp add: nodeMatches_Nil)

lemma getText_nodeWithBounds:
  assumes "CHR 0x22 \<notin> set b"
  shows "getText (nodeWithBounds b) ''bounds'' = b"
proof -
  have "takeWhile notQuote (b @ [CHR 0x22] @ ''>'') = b"
    and "dropWhile notQuote (b @ [CHR 0x22] @ ''>'') \<noteq> []"
    using assms by (simp_all add: notQuote_def takeWhile_append dropWhile_append)
  then show ?thesis
    by (simp add: getText_def nodeWithBounds_def)
qed

lemma length_nodeWithBounds: "length (nodeWithBounds b) = length b + 16"
  by (simp add: nodeWithBounds_def)

lemma parseUiTree_two_nodes:
  "parseUiTree (nodeWithBounds ''[100,200][300,400]'' @ nodeWithBounds ''[bad]'') =
     Inr [parseNode (nodeWithBounds ''[100,200][300,400]''),
          parseNode (nodeWithBounds ''[bad]'')]"
proof -
  have "nodeMatches (nodeWithBounds ''[100,200][300,400]'' @ nodeWithBounds ''[bad]'')
     = [nodeWithBounds ''[100,200][300,400]'', nodeWithBounds ''[bad]'']"
    by (simp add: nodeMatches_nodeWithBounds nodeMatches_nodeWithBounds_single)
  then show ?thesis
    by (simp add: parseUiTree_nodeMatches length_nodeWithBounds MAX_XML_SIZE_def MAX_ELEMENTS_def)
qed

text \<open>
  Claim C4, as the code has it. For every parsed element, \<^verbatim>\<open>centerX\<close> and \<^verbatim>\<open>centerY\<close>
  are present exactly when the bounds attribute contains a rectangle literal
  \<^verbatim>\<open>[x1,y1][x2,y2]\<close> of four non-empty runs of decimal digits (anywhere in it, the
  pattern is not anchored); and they are the floors of the midpoints of the leftmost such
  literal, for coordinates in the range where JavaScript numbers are exact.
\<close>

theorem parseUiTree_center:
  assumes "parseUiTree xml = Inr elements" and "el \<in> set elements"
  shows
   "(centerX el \<noteq> None \<longleftrightarrow> containsRectLiteral (bounds el)) \<and>
    (centerY el \<noteq> None \<longleftrightarrow> containsRectLiteral (bounds el)) \<and>
    (\<forall>k x1 y1 x2 y2.
      rectLiteralAt (bounds el) k x1 y1 x2 y2 \<and>
      (\<forall>j<k. \<forall>a b c d. \<not> rectLiteralAt (bounds el) j a b c d) \<and>
      Number x1 + Number x2 \<le> MAX_SAFE_INTEGER \<and> Number y1 + Number y2 \<le> MAX_SAFE_INTEGER \<longrightarrow>
      centerX el = Some ((Number x1 + Number x2) div 2) \<and>
      centerY el = Some ((Number y1 + Number y2) div 2))"
proof -
  from parseUiTree_elements [OF assms] obtain node where "el = parseNode node" by blast
  then show ?thesis using parseNode_center [of node] by simp
qed

theorem parseUiTree_center_witness:
  "parseUiTree (nodeWithBounds ''[100,200][300,400]'' @ nodeWithBounds ''[bad]'') =
     Inr [parseNode (nodeWithBounds ''[100,200][300,400]''), parseNode (nodeWithBounds ''[bad]'')] \<and>
   bounds (parseNode (nodeWithBounds ''[100,200][300,400]'')) = ''[100,200][300,400]'' \<and>
   rectLiteralAt ''[100,200][300,400]'' 0 ''100'' ''200'' ''300'' ''400'' \<and>
   centerX (parseNode (nodeWithBounds ''[100,200][300,400]'')) = Some 200 \<and>
   centerY (parseNode (nodeWithBounds ''[100,200][300,400]'')) = Some 300 \<and>
   bounds (parseNode (nodeWithBounds ''[bad]'')) = ''[bad]'' \<and>
   \<not> containsRectLiteral ''[bad]'' \<and>
   centerX (parseNode (nodeWithBounds ''[bad]'')) = None \<and>
   centerY (parseNode (nodeWithBounds ''[bad]'')) = None"
proof -
  let ?n1 = "nodeWithBounds ''[100,200][300,400]''" and ?n2 = "nodeWithBounds ''[bad]''"
  have p: "parseUiTree (?n1 @ ?n2) = Inr [parseNode ?n1, parseNode ?n2]"
    by (rule parseUiTree_two_nodes)
  have b1: "bounds (parseNode ?n1) = ''[100,200][300,400]''"
    by (simp add: parseNode_bounds getText_nodeWithBounds)
  have b2: "bounds (parseNode ?n2) = ''[bad]''"
    by (simp add: parseNode_bounds getText_nodeWithBounds)
  have r: "rectLiteralAt ''[100,200][300,400]'' 0 ''100'' ''200'' ''300'' ''400''"
    by (simp add: rectLiteralAt_def digitString_def isDigit_def rectLiteral_def)
  have s: "Number ''100'' + Number ''300'' \<le> MAX_SAFE_INTEGER"
    "Number ''200'' + Number ''400'' \<le> MAX_SAFE_INTEGER"
    by (simp_all add: Number_def digitValue_def MAX_SAFE_INTEGER_def)
  have v: "(Number ''100'' + Number ''300'') div 2 = 200" "(Number ''200'' + Number ''400'') div 2 = 300"
    by (simp_all add: Number_def digitValue_def)
  have n: "\<not> containsRectLiteral ''[bad]''"
    by (simp add: containsRectLiteral_iff boundsMatchAt_def lit_def digits1_def isDigit_def)
  have "\<forall>k x1 y1 x2 y2.
      rectLiteralAt (bounds (parseNode ?n1)) k x1 y1 x2 y2 \<and>
      (\<forall>j<k. \<forall>a b c d. \<not> rectLiteralAt (bounds (parseNode ?n1)) j a b c d) \<and>
      Number x1 + Number x2 \<le> MAX_SAFE_INTEGER \<and> Number y1 + Number y2 \<le> MAX_SAFE_INTEGER \<longrightarrow>
      centerX (parseNode ?n1) = Some ((Number x1 + Number x2) div 2) \<and>
      centerY (parseNode ?n1) = Some ((Number y1 + Number y2) div 2)"
    using parseUiTree_center [OF p, of "parseNode ?n1"] by simp
  from this [rule_format, of 0 "''100''" "''200''" "''300''" "''400''"]
  have t1: "centerX (parseNode ?n1) = Some 200 \<and> centerY (parseNode ?n1) = Some 300"
    using r s v b1 by simp
  have t2: "centerX (parseNode ?n2) = None \<and> centerY (parseNode ?n2) = None"
    using parseUiTree_center [OF p, of "parseNode ?n2"] n b2 by auto
  from p b1 b2 r n t1 t2 show ?thesis by simp
qed

text \<open>
  Claim C4, as stated, fails: a bounds attribute that is not of the form
  \<^verbatim>\<open>[x1,y1][x2,y2]\<close>, but contains such a literal, yields both center fields.
\<close>

theorem center_iff_rect_literal_counterexample:
  "parseUiTree (nodeWithBounds ''x[0,0][2,2]'') = Inr [parseNode (nodeWithBounds ''x[0,0][2,2]'')] \<and>
   bounds (parseNode (nodeWithBounds ''x[0,0][2,2]'')) = ''x[0,0][2,2]'' \<and>
   centerX (parseNode (nodeWithBounds ''x[0,0][2,2]'')) = Some 1 \<and>
   centerY (parseNode (nodeWithBounds ''x[0,0][2,2]'')) = Some 1 \<and>
   \<not> isRectLiteral (bounds (parseNode (nodeWithBounds ''x[0,0][2,2]'')))"
proof -
  let ?n = "nodeWithBounds ''x[0,0][2,2]''"
  have "nodeMatches ?n = [?n]"
    by (simp add: nodeMatches_nodeWithBounds_single)
  then have p: "parseUiTree ?n = Inr [parseNode ?n]"
    by (simp add: parseUiTree_nodeMatches length_nodeWithBounds MAX_XML_SIZE_def MAX_ELEMENTS_def)
  have b: "bounds (parseNode ?n) = ''x[0,0][2,2]''"
    by (simp add: parseNode_bounds getText_nodeWithBounds)
  have m: "boundsMatch ''x[0,0][2,2]'' = Some (''0'', ''0'', ''2'', ''2'')"
    by (simp add: boundsMatchAt_def lit_def digits1_def isDigit_def)
  have c: "centerX (parseNode ?n) = Some 1" "centerY (parseNode ?n) = Some 1"
    using b m
    by (simp_all add: parseNode_centerX parseNode_centerY parseNode_bounds Number_def digitValue_def)
  have "\<not> isRectLiteral ''x[0,0][2,2]''"
    by (auto simp: isRectLiteral_def rectLiteral_def)
  with p b c show ?thesis by simp
qed

section \<open>Properties of the element search\<close>

lemma asciiUpper_table:
  "asciiUpper c \<longleftrightarrow> c \<in> set ''ABCDEFGHIJKLMNOPQRSTUVWXYZ''"
proof
  assume "asciiUpper c"
  then have "(of_char c :: nat) \<in> set [65..<91]"
    by (simp add: asciiUpper_def del: upt_rec_numeral)
  also have "[65..<91] = map (of_char :: char \<Rightarrow> nat) ''ABCDEFGHIJKLMNOPQRSTUVWXYZ''"
    by simp
  finally obtain d where d: "d \<in> set ''ABCDEFGHIJKLMNOPQRSTUVWXYZ''"
    and "(of_char c :: nat) = of_char d"
    by (auto simp del: set_simps list.map)
  then have "c = d" by simp
  with d show "c \<in> set ''ABCDEFGHIJKLMNOPQRSTUVWXYZ''" by simp
next
  assume "c \<in> set ''ABCDEFGHIJKLMNOPQRSTUVWXYZ''"
  then show "asciiUpper c"
    by (auto simp: asciiUpper_def)
qed

lemma toLowerCaseChar_code:
  "(of_char (toLowerCaseChar c) :: nat) = (if asciiUpper c then of_char c + 32 else of_char c)"
proof (cases "asciiUpper c")
  case True
  then have "c \<in> set ''ABCDEFGHIJKLMNOPQRSTUVWXYZ''" using asciiUpper_table by blast
  then show ?thesis
    using True by (auto simp: toLowerCaseChar_def)
next
  case False
  then have n: "c \<notin> set ''ABCDEFGHIJKLMNOPQRSTUVWXYZ''" using asciiUpper_table by blast
  have l: "length ''ABCDEFGHIJKLMNOPQRSTUVWXYZ'' = length ''abcdefghijklmnopqrstuvwxyz''"
    by simp
  have "map_of (zip ''ABCDEFGHIJKLMNOPQRSTUVWXYZ'' ''abcdefghijklmnopqrstuvwxyz'') c = None"
    by (rule iffD2 [OF map_of_zip_is_None [OF l] n])
  with False show ?thesis by (simp add: toLowerCaseChar_def)
qed

lemma toLowerCaseChar_eq_iff:
  "toLowerCaseChar a = toLowerCaseChar b \<longleftrightarrow> sameIgnoringCase a b"
proof -
  have "toLowerCaseChar a = toLowerCaseChar b \<longleftrightarrow>
      (of_char (toLowerCaseChar a) :: nat) = of_char (toLowerCaseChar b)"
    by simp
  also have "\<dots> \<longleftrightarrow> sameIgnoringCase a b"
    unfolding toLowerCaseChar_code sameIgnoringCase_def
    by (auto simp: asciiUpper_def)
  finally show ?thesis .
qed

lemma startsWithIgnoringCase_iff:
  "startsWithIgnoringCase s t \<longleftrightarrow> prefix (toLowerCase t) (toLowerCase s)"
proof (induction s t rule: startsWithIgnoringCase.induct)
  case (1 s)
  show ?case by (simp add: toLowerCase_def)
next
  case (2 b t)
  show ?case by (simp add: toLowerCase_def)
next
  case (3 a s b t)
  have "toLowerCaseChar b = toLowerCaseChar a \<longleftrightarrow> sameIgnoringCase a b"
    using toLowerCaseChar_eq_iff [of a b] by auto
  with 3 show ?case by (simp add: toLowerCase_def)
qed

lemma containsIgnoringCase_iff:
  "containsIgnoringCase s t \<longleftrightarrow> sublist (toLowerCase t) (toLowerCase s)"
proof (induction s)
  case Nil
  show ?case by (cases t) (simp_all add: toLowerCase_def)
next
  case (Cons a s)
  have "sublist (toLowerCase t) (toLowerCase (a # s)) \<longleftrightarrow>
      prefix (toLowerCase t) (toLowerCase (a # s)) \<or> sublist (toLowerCase t) (toLowerCase s)"
    by (simp add: toLowerCase_def sublist_Cons_right)
  with Cons show ?case
    by (simp add: startsWithIgnoringCase_iff del: startsWithIgnoringCase.simps)
qed

lemma nonEmptyCriterionMatches_tests:
  "nonEmptyCriterionMatches criteria el \<longleftrightarrow>
     textTest criteria el \<or> resourceIdTest criteria el \<or>
     contentDescriptionTest criteria el \<or> classNameTest criteria el"
  by (simp add: nonEmptyCriterionMatches_def textTest_def resourceIdTest_def
      contentDescriptionTest_def classNameTest_def includes_str_def
      containsIgnoringCase_iff split: option.splits)

lemma findElementInTree_find:
  "findElementInTree elements criteria = List.find (nonEmptyCriterionMatches criteria) elements"
  by (induction elements) (simp_all add: nonEmptyCriterionMatches_tests)

lemma find_Some_split:
  "List.find P xs = Some x \<longleftrightarrow>
     (\<exists>before after. xs = before @ x # after \<and> P x \<and> (\<forall>e\<in>set before. \<not> P e))"
proof (induction xs)
  case Nil
  show ?case by simp
next
  case (Cons y ys)
  show ?case
  proof (cases "P y")
    case True
    have "(\<exists>before after. y # ys = before @ x # after \<and> P x \<and> (\<forall>e\<in>set before. \<not> P e))
        \<longleftrightarrow> x = y"
    proof
      assume "\<exists>before after. y # ys = before @ x # after \<and> P x \<and> (\<forall>e\<in>set before. \<not> P e)"
      then obtain before after where
        s: "y # ys = before @ x # after" and n: "\<forall>e\<in>set before. \<not> P e" by blast
      show "x = y"
      proof (cases before)
        case Nil
        with s show ?thesis by simp
      next
        case (Cons b bs)
        with s have "b = y" by simp
        with Cons n True show ?thesis by simp
      qed
    next
      assume "x = y"
      with True have "y # ys = [] @ x # ys \<and> P x \<and> (\<forall>e\<in>set []. \<not> P e)" by simp
      then show "\<exists>before after. y # ys = before @ x # after \<and> P x \<and> (\<forall>e\<in>set before. \<not> P e)"
        by blast
    qed
    with True show ?thesis by auto
  next
    case False
    have "(\<exists>before after. y # ys = before @ x # after \<and> P x \<and> (\<forall>e\<in>set before. \<not> P e))
        \<longleftrightarrow> (\<exists>before after. ys = before @ x # after \<and> P x \<and> (\<forall>e\<in>set before. \<not> P e))"
      (is "?L \<longleftrightarrow> ?R")
    proof
      assume ?L
      then obtain before after where
        s: "y # ys = before @ x # after" and p: "P x" and n: "\<forall>e\<in>set before. \<not> P e" by blast
      show ?R
      proof (cases before)
        case Nil
        with s p False show ?thesis by simp
      next
        case (Cons b bs)
        with s n have "ys = bs @ x # after \<and> (\<forall>e\<in>set bs. \<not> P e)" by simp
        with p show ?thesis by blast
      qed
    next
      assume ?R
      then obtain before after where
        s: "ys = before @ x # after" and p: "P x" and n: "\<forall>e\<in>set before. \<not> P e" by blast
      from s n False have "y # ys = (y # before) @ x # after \<and> (\<forall>e\<in>set (y # before). \<not> P e)"
        by simp
      with p show ?L by blast
    qed
    with False Cons.IH show ?thesis by simp
  qed
qed

text \<open>
  Claim C1, as the code has it. On ASCII texts, \<^verbatim>\<open>findElementInTree\<close> returns the first
  element, in list order, that matches any criterion that is supplied and not empty (text
  and content description without regard to case, resource id and class name with regard
  to case, all by substring containment), and \<^verbatim>\<open>null\<close> when no element of the list
  does.
\<close>

theorem findElementInTree_first_match:
  assumes "asciiCriteria criteria" and "list_all asciiElement elements"
  shows
  "(findElementInTree elements criteria = None \<longleftrightarrow>
      (\<forall>el\<in>set elements. \<not> nonEmptyCriterionMatches criteria el)) \<and>
   (\<forall>el. findElementInTree elements criteria = Some el \<longleftrightarrow>
      (\<exists>before after. elements = before @ el # after \<and>
         nonEmptyCriterionMatches criteria el \<and>
         (\<forall>e\<in>set before. \<not> nonEmptyCriterionMatches criteria e)))"
  by (simp add: findElementInTree_find find_None_iff find_Some_split Ball_def)

theorem findElementInTree_first_match_witness:
  "criterionSupplied (textCriteria ''Submit'') \<and>
   asciiCriteria (textCriteria ''Submit'') \<and>
   list_all asciiElement [elementWithText ''cancel'', elementWithText ''submit''] \<and>
   \<not> nonEmptyCriterionMatches (textCriteria ''Submit'') (elementWithText ''cancel'') \<and>
   nonEmptyCriterionMatches (textCriteria ''Submit'') (elementWithText ''submit'') \<and>
   findElementInTree [elementWithText ''cancel'', elementWithText ''submit'']
     (textCriteria ''Submit'') = Some (elementWithText ''submit'') \<and>
   findElementInTree [elementWithText ''cancel''] (textCriteria ''Submit'') = None \<and>
   findElementInTree [] (textCriteria ''Submit'') = None"
proof -
  let ?c = "textCriteria ''Submit''"
  have s: "criterionSupplied ?c"
    by (simp add: criterionSupplied_def textCriteria_def)
  have ac: "asciiCriteria ?c"
    by (simp add: asciiCriteria_def textCriteria_def isAscii_def)
  have ae: "list_all asciiElement [elementWithText ''cancel'', elementWithText ''submit'']"
    by (simp add: asciiElement_def elementWithText_def isAscii_def)
  then have ae1: "list_all asciiElement [elementWithText ''cancel'']"
    by simp
  have n: "\<not> nonEmptyCriterionMatches ?c (elementWithText ''cancel'')"
    by (simp add: nonEmptyCriterionMatches_def textCriteria_def elementWithText_def
        sameIgnoringCase_def asciiUpper_def)
  have y: "nonEmptyCriterionMatches ?c (elementWithText ''submit'')"
    by (simp add: nonEmptyCriterionMatches_def textCriteria_def elementWithText_def
        sameIgnoringCase_def asciiUpper_def)
  have split: "[elementWithText ''cancel'', elementWithText ''submit''] =
      [elementWithText ''cancel''] @ elementWithText ''submit'' # []"
    by simp
  have r1: "findElementInTree [elementWithText ''cancel'', elementWithText ''submit''] ?c
      = Some (elementWithText ''submit'')"
  proof -
    have "\<exists>before after.
        [elementWithText ''cancel'', elementWithText ''submit''] =
          before @ elementWithText ''submit'' # after \<and>
        nonEmptyCriterionMatches ?c (elementWithText ''submit'') \<and>
        (\<forall>e\<in>set before. \<not> nonEmptyCriterionMatches ?c e)"
      using split n y by (intro exI [of _ "[elementWithText ''cancel'']"] exI [of _ "[]"]) simp
    then show ?thesis
      using findElementInTree_first_match [OF ac ae] by blast
  qed
  have r2: "findElementInTree [elementWithText ''cancel''] ?c = None"
    using findElementInTree_first_match [OF ac ae1] n by simp
  have r3: "findElementInTree [] ?c = None"
    using findElementInTree_first_match [OF ac, of "[]"] by simp
  from s ac ae n y r1 r2 r3 show ?thesis by simp
qed

text \<open>
  Claim C1, as stated, fails: a criterion that is supplied as the empty string is contained
  in every text, yet the search skips it and finds nothing.
\<close>

theorem findElementInTree_empty_criterion_counterexample:
  "criterionSupplied (textCriteria []) \<and>
   suppliedCriterionMatches (textCriteria []) (elementWithText ''OK'') \<and>
   findElementInTree [elementWithText ''OK''] (textCriteria []) = None"
  by (simp add: criterionSupplied_def suppliedCriterionMatches_def textCriteria_def
      elementWithText_def textTest_def resourceIdTest_def contentDescriptionTest_def
      classNameTest_def)

section \<open>Properties of the result shaping\<close>

lemma center_reportElement:
  "center (reportElement el) \<noteq> None \<longleftrightarrow> truthyNumber (centerX el) \<and> truthyNumber (centerY el)"
  by (auto simp: reportElement_def truthyNumber_def split: option.splits)

text \<open>
  Claim C10. In the result of \<^verbatim>\<open>get_ui_tree\<close>, an element whose bounds parsed but whose
  \<^verbatim>\<open>centerX\<close> or \<^verbatim>\<open>centerY\<close> is \<open>0\<close> is reported without a \<^verbatim>\<open>center\<close>: the field is
  present exactly when both coordinates are truthy, not when they are defined.
\<close>

theorem get_ui_tree_center_omitted:
  assumes "parseUiTree stdout = Inr elements" and "el \<in> set elements"
    and "keepElement compressed el"
    and "centerX el = Some 0 \<or> centerY el = Some 0"
  shows "\<exists>reported. get_ui_tree compressed (Some stdout) = Some reported \<and>
           reportElement el \<in> set reported \<and>
           center (reportElement el) = None \<and>
           (\<forall>e. center (reportElement e) \<noteq> None \<longleftrightarrow>
                  truthyNumber (centerX e) \<and> truthyNumber (centerY e))"
proof -
  have g: "get_ui_tree compressed (Some stdout) =
      Some (map reportElement (filter (keepElement compressed) elements))"
    using assms(1) by (simp add: get_ui_tree_def)
  have m: "reportElement el \<in> set (map reportElement (filter (keepElement compressed) elements))"
    using assms(2,3) by simp
  have c: "center (reportElement el) = None"
    using assms(4) by (auto simp: reportElement_def truthyNumber_def)
  from g m c show ?thesis
    using center_reportElement by blast
qed

theorem get_ui_tree_center_omitted_witness:
  "parseUiTree (nodeWithBounds ''[0,0][0,10]'') = Inr [parseNode (nodeWithBounds ''[0,0][0,10]'')] \<and>
   keepElement False (parseNode (nodeWithBounds ''[0,0][0,10]'')) \<and>
   centerX (parseNode (nodeWithBounds ''[0,0][0,10]'')) = Some 0 \<and>
   centerY (parseNode (nodeWithBounds ''[0,0][0,10]'')) = Some 5 \<and>
   get_ui_tree False (Some (nodeWithBounds ''[0,0][0,10]'')) =
     Some [reportElement (parseNode (nodeWithBounds ''[0,0][0,10]''))] \<and>
   center (reportElement (parseNode (nodeWithBounds ''[0,0][0,10]''))) = None"
proof -
  let ?n = "nodeWithBounds ''[0,0][0,10]''"
  have "nodeMatches ?n = [?n]"
    by (simp add: nodeMatches_nodeWithBounds_single)
  then have p: "parseUiTree ?n = Inr [parseNode ?n]"
    by (simp add: parseUiTree_nodeMatches length_nodeWithBounds MAX_XML_SIZE_def MAX_ELEMENTS_def)
  have k: "keepElement False (parseNode ?n)"
    by (simp add: keepElement_def)
  have m: "boundsMatch ''[0,0][0,10]'' = Some (''0'', ''0'', ''0'', ''10'')"
    by (simp add: boundsMatchAt_def lit_def digits1_def isDigit_def)
  have c: "centerX (parseNode ?n) = Some 0" "centerY (parseNode ?n) = Some 5"
    using m
    by (simp_all add: parseNode_centerX parseNode_centerY getText_nodeWithBounds
        Number_def digitValue_def)
  have g: "get_ui_tree False (Some ?n) = Some [reportElement (parseNode ?n)]"
    using p by (simp add: get_ui_tree_def keepElement_def)
  have "center (reportElement (parseNode ?n)) = None"
    using get_ui_tree_center_omitted [OF p _ k] c by auto
  with p k c g show ?thesis by simp
qed

section \<open>Properties of the license cache and of entitlement resolution\<close>

text \<open>The length check keeps \<^verbatim>\<open>timingSafeEqual\<close> from throwing.\<close>

lemma verifyCacheSignature_eq:
  "verifyCacheSignature p data signature = Inr (signature = signCacheData p data)"
  by (auto simp: verifyCacheSignature_def timingSafeEqual_def Let_def)

text \<open>
  A record under the signature computed on this machine is returned and the file is left
  alone; under any other non-empty signature the file is removed and nothing is returned.
\<close>

lemma loadCachedLicense_signed:
  assumes "signCacheData p data \<noteq> []"
  shows "loadCachedLicense p (signedCache p data) = (Some data, signedCache p data)"
  using assms by (simp add: loadCachedLicense_def signedCache_def verifyCacheSignature_eq)

lemma loadCachedLicense_mismatch:
  assumes "signature \<noteq> signCacheData p data" and "signature \<noteq> []"
  shows "loadCachedLicense p (Some (Envelope (Some data) (Some signature))) = (None, None)"
  using assms by (simp add: loadCachedLicense_def verifyCacheSignature_eq unlinkSync_def)

lemma loadCachedLicense_Some:
  assumes "loadCachedLicense p fs = (Some c, fs1)"
  shows "fs1 = fs \<and> fs \<noteq> None"
  using assms
  by (auto simp: loadCachedLicense_def unlinkSync_def
      split: option.splits cache_file.splits sum.splits if_splits bool.splits)

lemma signCacheData_examplePlatform:
  "signCacheData examplePlatform data =
     ''mobiledev-host-cache-v1'' @ (case cachedLicenseKey data of None \<Rightarrow> [] | Some k \<Rightarrow> k)"
  by (simp add: signCacheData_def examplePlatform_def getCacheSecret_def)

lemma loadCachedLicense_incomplete:
  assumes "rawData = None \<or> \<not> truthy rawSignature"
  shows "loadCachedLicense p (Some (Envelope rawData rawSignature)) = (None, None)"
  using assms
  by (auto simp: loadCachedLicense_def unlinkSync_def truthy_def split: option.splits)

text \<open>
  Claim C2, as the code has it. An envelope whose signature is the keyed hash, under this
  machine's secret, of its data is loaded and the file is kept. A file that parses to an
  envelope with data and a non-empty signature that is not the keyed hash of the data (as
  after any change of the signature, and after any change of the data that changes its
  keyed hash) gives \<^verbatim>\<open>null\<close> and is removed; so is an envelope that lacks the data or the
  signature. A file that does not parse gives \<^verbatim>\<open>null\<close> and stays where it is. The
  comparison checks the lengths first and then calls \<^verbatim>\<open>timingSafeEqual\<close>, which
  therefore never throws; how long the comparison takes is not part of the model.
\<close>

theorem loadCachedLicense_integrity:
  "(signCacheData p data \<noteq> [] \<longrightarrow>
      loadCachedLicense p (Some (Envelope (Some data) (Some (signCacheData p data)))) =
        (Some data, Some (Envelope (Some data) (Some (signCacheData p data))))) \<and>
   (\<forall>signature. signature \<noteq> [] \<and> signature \<noteq> signCacheData p data \<longrightarrow>
      loadCachedLicense p (Some (Envelope (Some data) (Some signature))) = (None, None)) \<and>
   (\<forall>rawData rawSignature. rawData = None \<or> \<not> truthy rawSignature \<longrightarrow>
      loadCachedLicense p (Some (Envelope rawData rawSignature)) = (None, None)) \<and>
   loadCachedLicense p (Some Unreadable) = (None, Some Unreadable) \<and>
   loadCachedLicense p None = (None, None) \<and>
   (\<forall>signature.
      verifyCacheSignature p data signature =
        (if length signature \<noteq> length (signCacheData p data) then Inr False
         else timingSafeEqual signature (signCacheData p data)) \<and>
      verifyCacheSignature p data signature = Inr (signature = signCacheData p data))"
proof (intro conjI allI impI)
  assume "signCacheData p data \<noteq> []"
  then show "loadCachedLicense p (Some (Envelope (Some data) (Some (signCacheData p data)))) =
        (Some data, Some (Envelope (Some data) (Some (signCacheData p data))))"
    using loadCachedLicense_signed [of p data] by (simp add: signedCache_def)
next
  fix signature
  assume "signature \<noteq> [] \<and> signature \<noteq> signCacheData p data"
  then show "loadCachedLicense p (Some (Envelope (Some data) (Some signature))) = (None, None)"
    by (simp add: loadCachedLicense_mismatch)
next
  fix rawData :: "CachedData option" and rawSignature
  assume "rawData = None \<or> \<not> truthy rawSignature"
  then show "loadCachedLicense p (Some (Envelope rawData rawSignature)) = (None, None)"
    by (rule loadCachedLicense_incomplete)
next
  show "loadCachedLicense p (Some Unreadable) = (None, Some Unreadable)"
    by (simp add: loadCachedLicense_def)
next
  show "loadCachedLicense p None = (None, None)"
    by (simp add: loadCachedLicense_def)
next
  fix signature
  show "verifyCacheSignature p data signature =
        (if length signature \<noteq> length (signCacheData p data) then Inr False
         else timingSafeEqual signature (signCacheData p data))"
    by (simp add: verifyCacheSignature_def Let_def)
next
  fix signature
  show "verifyCacheSignature p data signature = Inr (signature = signCacheData p data)"
    by (rule verifyCacheSignature_eq)
qed

theorem loadCachedLicense_integrity_witness:
  "signCacheData examplePlatform
     \<lparr> cachedTier = Advanced, cachedLicenseKey = Some ''KEY-0123456789'',
       cachedExpiresAt = None, lastValidated = Some 1000 \<rparr> = ''mobiledev-host-cache-v1KEY-0123456789'' \<and>
   loadCachedLicense examplePlatform
     (Some (Envelope
        (Some \<lparr> cachedTier = Advanced, cachedLicenseKey = Some ''KEY-0123456789'',
                cachedExpiresAt = None, lastValidated = Some 1000 \<rparr>)
        (Some ''mobiledev-host-cache-v1KEY-0123456789''))) =
     (Some \<lparr> cachedTier = Advanced, cachedLicenseKey = Some ''KEY-0123456789'',
             cachedExpiresAt = None, lastValidated = Some 1000 \<rparr>,
      Some (Envelope
        (Some \<lparr> cachedTier = Advanced, cachedLicenseKey = Some ''KEY-0123456789'',
                cachedExpiresAt = None, lastValidated = Some 1000 \<rparr>)
        (Some ''mobiledev-host-cache-v1KEY-0123456789''))) \<and>
   loadCachedLicense examplePlatform
     (Some (Envelope
        (Some \<lparr> cachedTier = Advanced, cachedLicenseKey = Some ''KEY-0123456789'',
                cachedExpiresAt = None, lastValidated = Some 1000 \<rparr>)
        (Some ''mobiledev-host-cache-v1KEY-0123456788''))) = (None, None) \<and>
   loadCachedLicense examplePlatform
     (Some (Envelope
        (Some \<lparr> cachedTier = Advanced, cachedLicenseKey = Some ''KEY-0123456788'',
                cachedExpiresAt = None, lastValidated = Some 1000 \<rparr>)
        (Some ''mobiledev-host-cache-v1KEY-0123456789''))) = (None, None) \<and>
   loadCachedLicense examplePlatform
     (Some (Envelope
        (Some \<lparr> cachedTier = Advanced, cachedLicenseKey = Some ''KEY-0123456789'',
                cachedExpiresAt = None, lastValidated = Some 1000 \<rparr>)
        None)) = (None, None)"
proof -
  let ?d = "\<lparr> cachedTier = Advanced, cachedLicenseKey = Some ''KEY-0123456789'',
       cachedExpiresAt = None, lastValidated = Some 1000 \<rparr>"
  let ?d' = "\<lparr> cachedTier = Advanced, cachedLicenseKey = Some ''KEY-0123456788'',
       cachedExpiresAt = None, lastValidated = Some 1000 \<rparr>"
  have sg: "signCacheData examplePlatform ?d = ''mobiledev-host-cache-v1KEY-0123456789''"
    by (simp add: signCacheData_examplePlatform)
  have sg': "signCacheData examplePlatform ?d' = ''mobiledev-host-cache-v1KEY-0123456788''"
    by (simp add: signCacheData_examplePlatform)
  have ne: "signCacheData examplePlatform ?d \<noteq> []"
    by (simp add: sg)
  have a: "loadCachedLicense examplePlatform
      (Some (Envelope (Some ?d) (Some (signCacheData examplePlatform ?d)))) =
      (Some ?d, Some (Envelope (Some ?d) (Some (signCacheData examplePlatform ?d))))"
    using loadCachedLicense_integrity [of examplePlatform ?d] ne by blast
  have m: "\<forall>signature. signature \<noteq> [] \<and> signature \<noteq> signCacheData examplePlatform ?d \<longrightarrow>
      loadCachedLicense examplePlatform (Some (Envelope (Some ?d) (Some signature))) = (None, None)"
    using loadCachedLicense_integrity [of examplePlatform ?d] by blast
  have b: "loadCachedLicense examplePlatform
      (Some (Envelope (Some ?d) (Some ''mobiledev-host-cache-v1KEY-0123456788''))) = (None, None)"
    using m [rule_format, of "''mobiledev-host-cache-v1KEY-0123456788''"] by (simp add: sg)
  have m': "\<forall>signature. signature \<noteq> [] \<and> signature \<noteq> signCacheData examplePlatform ?d' \<longrightarrow>
      loadCachedLicense examplePlatform (Some (Envelope (Some ?d') (Some signature))) = (None, None)"
    using loadCachedLicense_integrity [of examplePlatform ?d'] by blast
  have c: "loadCachedLicense examplePlatform
      (Some (Envelope (Some ?d') (Some ''mobiledev-host-cache-v1KEY-0123456789''))) = (None, None)"
    using m' [rule_format, of "''mobiledev-host-cache-v1KEY-0123456789''"] by (simp add: sg')
  have i: "\<forall>rawData rawSignature. rawData = None \<or> \<not> truthy rawSignature \<longrightarrow>
      loadCachedLicense examplePlatform (Some (Envelope rawData rawSignature)) = (None, None)"
    using loadCachedLicense_integrity [of examplePlatform ?d] by blast
  have d: "loadCachedLicense examplePlatform (Some (Envelope (Some ?d) None)) = (None, None)"
    using i [rule_format, of "Some ?d" None] by (simp add: truthy_def)
  from sg a b c d show ?thesis by simp
qed

text \<open>
  Claim C2, as stated, fails: a stored file that no longer parses (what the flip of one bit
  in a quote or a brace of the file leaves) gives \<^verbatim>\<open>null\<close>, but the file is not removed.
\<close>

theorem loadCachedLicense_unreadable_counterexample:
  "fst (loadCachedLicense examplePlatform (Some Unreadable)) = None \<and>
   snd (loadCachedLicense examplePlatform (Some Unreadable)) = Some Unreadable \<and>
   snd (loadCachedLicense examplePlatform (Some Unreadable)) \<noteq> None"
  by (simp add: loadCachedLicense_def)

text \<open>
  Claim C3. When the cached record is present but stale (the time since
  \<^verbatim>\<open>lastValidated\<close> is at least the TTL of one hour) and the re-validation returns
  nothing, \<^verbatim>\<open>checkLicense\<close> gives the free tier and the cache file does not exist
  afterwards; and when anything inside the resolution throws, the tier is free too.
\<close>

theorem checkLicense_stale_revalidation_fails:
  "(loadCachedLicense p fs = (Some c, fs1) \<and>
    cachedLicenseKey c = Some key \<and> key \<noteq> [] \<and>
    now - (case lastValidated c of None \<Rightarrow> 0 | Some t \<Rightarrow> t) \<ge> CACHE_TTL_MS \<and>
    fst (validateWithLemonSqueezy p reply replyTime key fs1) = Inr None
    \<longrightarrow> tier (fst (checkLicense p now reply replyTime fs)) = Free \<and>
        snd (checkLicense p now reply replyTime fs) = None) \<and>
   (\<forall>e. fst (checkLicense_try p now reply replyTime fs) = Inl e
    \<longrightarrow> tier (fst (checkLicense p now reply replyTime fs)) = Free) \<and>
   CACHE_TTL_MS = 3600000"
proof (intro conjI impI allI)
  assume a: "loadCachedLicense p fs = (Some c, fs1) \<and>
    cachedLicenseKey c = Some key \<and> key \<noteq> [] \<and>
    now - (case lastValidated c of None \<Rightarrow> 0 | Some t \<Rightarrow> t) \<ge> CACHE_TTL_MS \<and>
    fst (validateWithLemonSqueezy p reply replyTime key fs1) = Inr None"
  then have ex: "fs1 \<noteq> None" using loadCachedLicense_Some by blast
  from a have v: "validateWithLemonSqueezy p reply replyTime key fs1 = (Inr None, fs1)"
    by (auto simp: validateWithLemonSqueezy_def Let_def split: api_reply.splits if_splits)
  from a have stale: "\<not> now - (case lastValidated c of None \<Rightarrow> 0 | Some t \<Rightarrow> t) < CACHE_TTL_MS"
    by simp
  have t: "checkLicense_try p now reply replyTime fs = (Inr freeLicense, None)"
    using a v stale ex by (auto simp: checkLicense_try_def Let_def unlinkSync_def)
  then show "tier (fst (checkLicense p now reply replyTime fs)) = Free"
    by (simp add: checkLicense_def freeLicense_def)
  from t show "snd (checkLicense p now reply replyTime fs) = None"
    by (simp add: checkLicense_def)
next
  fix e
  assume "fst (checkLicense_try p now reply replyTime fs) = Inl e"
  then show "tier (fst (checkLicense p now reply replyTime fs)) = Free"
    by (cases "checkLicense_try p now reply replyTime fs")
      (simp add: checkLicense_def freeLicense_def)
next
  show "CACHE_TTL_MS = 3600000" by (simp add: CACHE_TTL_MS_def)
qed

theorem checkLicense_stale_revalidation_fails_witness:
  "loadCachedLicense examplePlatform
     (signedCache examplePlatform
        \<lparr> cachedTier = Advanced, cachedLicenseKey = Some ''KEY-0123456789'',
          cachedExpiresAt = None, lastValidated = Some 1000 \<rparr>) =
     (Some \<lparr> cachedTier = Advanced, cachedLicenseKey = Some ''KEY-0123456789'',
          cachedExpiresAt = None, lastValidated = Some 1000 \<rparr>,
      signedCache examplePlatform
        \<lparr> cachedTier = Advanced, cachedLicenseKey = Some ''KEY-0123456789'',
          cachedExpiresAt = None, lastValidated = Some 1000 \<rparr>) \<and>
   (3601000 :: int) - 1000 \<ge> CACHE_TTL_MS \<and>
   fst (validateWithLemonSqueezy examplePlatform RequestTimeout 3606000 ''KEY-0123456789''
     (signedCache examplePlatform
        \<lparr> cachedTier = Advanced, cachedLicenseKey = Some ''KEY-0123456789'',
          cachedExpiresAt = None, lastValidated = Some 1000 \<rparr>)) = Inr None \<and>
   tier (fst (checkLicense examplePlatform 3601000 RequestTimeout 3606000
     (signedCache examplePlatform
        \<lparr> cachedTier = Advanced, cachedLicenseKey = Some ''KEY-0123456789'',
          cachedExpiresAt = None, lastValidated = Some 1000 \<rparr>))) = Free \<and>
   snd (checkLicense examplePlatform 3601000 RequestTimeout 3606000
     (signedCache examplePlatform
        \<lparr> cachedTier = Advanced, cachedLicenseKey = Some ''KEY-0123456789'',
          cachedExpiresAt = None, lastValidated = Some 1000 \<rparr>)) = None \<and>
   fst (checkLicense_try examplePlatform 3601000 RequestThrows 3606000
     (signedCache examplePlatform
        \<lparr> cachedTier = Advanced, cachedLicenseKey = Some ''KEY-0123456789'',
          cachedExpiresAt = None, lastValidated = Some 1000 \<rparr>)) = Inl RequestSetupFailed \<and>
   tier (fst (checkLicense examplePlatform 3601000 RequestThrows 3606000
     (signedCache examplePlatform
        \<lparr> cachedTier = Advanced, cachedLicenseKey = Some ''KEY-0123456789'',
          cachedExpiresAt = None, lastValidated = Some 1000 \<rparr>))) = Free"
proof -
  let ?c = "\<lparr> cachedTier = Advanced, cachedLicenseKey = Some ''KEY-0123456789'',
          cachedExpiresAt = None, lastValidated = Some 1000 \<rparr>"
  let ?fs = "signedCache examplePlatform ?c"
  have l: "loadCachedLicense examplePlatform ?fs = (Some ?c, ?fs)"
    by (rule loadCachedLicense_signed) (simp add: signCacheData_examplePlatform)
  have s: "(3601000 :: int) - 1000 \<ge> CACHE_TTL_MS"
    by (simp add: CACHE_TTL_MS_def)
  have v: "fst (validateWithLemonSqueezy examplePlatform RequestTimeout 3606000
      ''KEY-0123456789'' ?fs) = Inr None"
    by (simp add: validateWithLemonSqueezy_def)
  have hyp: "loadCachedLicense examplePlatform ?fs = (Some ?c, ?fs) \<and>
      cachedLicenseKey ?c = Some ''KEY-0123456789'' \<and> ''KEY-0123456789'' \<noteq> [] \<and>
      3601000 - (case lastValidated ?c of None \<Rightarrow> 0 | Some t \<Rightarrow> t) \<ge> CACHE_TTL_MS \<and>
      fst (validateWithLemonSqueezy examplePlatform RequestTimeout 3606000
        ''KEY-0123456789'' ?fs) = Inr None"
    using l s v by simp
  note thm1 = checkLicense_stale_revalidation_fails
    [of examplePlatform ?fs ?c ?fs "''KEY-0123456789''" 3601000 RequestTimeout 3606000]
  from thm1 hyp
  have r1: "tier (fst (checkLicense examplePlatform 3601000 RequestTimeout 3606000 ?fs)) = Free \<and>
      snd (checkLicense examplePlatform 3601000 RequestTimeout 3606000 ?fs) = None"
    by blast
  have t: "fst (checkLicense_try examplePlatform 3601000 RequestThrows 3606000 ?fs)
      = Inl RequestSetupFailed"
    using l s by (simp add: checkLicense_try_def validateWithLemonSqueezy_def Let_def)
  note thm2 = checkLicense_stale_revalidation_fails
    [of examplePlatform ?fs ?c ?fs "''KEY-0123456789''" 3601000 RequestThrows 3606000]
  from thm2 t
  have r2: "tier (fst (checkLicense examplePlatform 3601000 RequestThrows 3606000 ?fs)) = Free"
    by blast
  from l s v r1 t r2 show ?thesis by blast
qed

text \<open>
  Claim C9. A cached record whose \<^verbatim>\<open>licenseKey\<close> is absent or empty is ignored by
  \<^verbatim>\<open>checkLicense\<close>, whatever its tier and however fresh it is, even though its signature
  verifies: the result is the free license, and the file is left as it is.
\<close>

theorem checkLicense_ignores_record_without_key:
  assumes "loadCachedLicense p fs = (Some c, fs1)"
    and "\<not> truthy (cachedLicenseKey c)"
  shows "checkLicense p now reply replyTime fs = (freeLicense, fs) \<and>
         tier (fst (checkLicense p now reply replyTime fs)) = Free \<and>
         valid (fst (checkLicense p now reply replyTime fs)) \<and>
         licenseKey (fst (checkLicense p now reply replyTime fs)) = None"
proof -
  from assms(1) have "fs1 = fs" using loadCachedLicense_Some by blast
  with assms have "checkLicense_try p now reply replyTime fs = (Inr freeLicense, fs)"
    by (auto simp: checkLicense_try_def truthy_def split: option.splits)
  then show ?thesis by (simp add: checkLicense_def freeLicense_def)
qed

theorem checkLicense_ignores_record_without_key_witness:
  "loadCachedLicense examplePlatform
     (signedCache examplePlatform
        \<lparr> cachedTier = Advanced, cachedLicenseKey = None,
          cachedExpiresAt = None, lastValidated = Some 5000 \<rparr>) =
     (Some \<lparr> cachedTier = Advanced, cachedLicenseKey = None,
          cachedExpiresAt = None, lastValidated = Some 5000 \<rparr>,
      signedCache examplePlatform
        \<lparr> cachedTier = Advanced, cachedLicenseKey = None,
          cachedExpiresAt = None, lastValidated = Some 5000 \<rparr>) \<and>
   \<not> truthy (cachedLicenseKey
        \<lparr> cachedTier = Advanced, cachedLicenseKey = None,
          cachedExpiresAt = None, lastValidated = Some 5000 \<rparr>) \<and>
   (5001 :: int) - 5000 < CACHE_TTL_MS \<and>
   checkLicense examplePlatform 5001 (Body True (Some ''Advanced'') None) 5002
     (signedCache examplePlatform
        \<lparr> cachedTier = Advanced, cachedLicenseKey = None,
          cachedExpiresAt = None, lastValidated = Some 5000 \<rparr>) =
     (freeLicense,
      signedCache examplePlatform
        \<lparr> cachedTier = Advanced, cachedLicenseKey = None,
          cachedExpiresAt = None, lastValidated = Some 5000 \<rparr>) \<and>
   tier freeLicense = Free"
proof -
  let ?c = "\<lparr> cachedTier = Advanced, cachedLicenseKey = None,
          cachedExpiresAt = None, lastValidated = Some 5000 \<rparr>"
  let ?fs = "signedCache examplePlatform ?c"
  have l: "loadCachedLicense examplePlatform ?fs = (Some ?c, ?fs)"
    by (rule loadCachedLicense_signed) (simp add: signCacheData_examplePlatform)
  have k: "\<not> truthy (cachedLicenseKey ?c)" by (simp add: truthy_def)
  have f: "(5001 :: int) - 5000 < CACHE_TTL_MS" by (simp add: CACHE_TTL_MS_def)
  have "checkLicense examplePlatform 5001 (Body True (Some ''Advanced'') None) 5002 ?fs
      = (freeLicense, ?fs)"
    using checkLicense_ignores_record_without_key [OF l k] by blast
  with l k f show ?thesis by (simp add: freeLicense_def)
qed

section \<open>Properties of waiting for an element\<close>

declare waitLoop.simps [simp del]

lemma effectiveTimeout_range:
  "1000 \<le> effectiveTimeout args \<and> effectiveTimeout args \<le> 60000"
  by (simp add: effectiveTimeout_def MAX_TIMEOUT_def)

lemma effectiveTimeout_default:
  "argTimeout args = None \<or> argTimeout args = Some 0 \<Longrightarrow> effectiveTimeout args = 5000"
  by (auto simp: effectiveTimeout_def requestedTimeout_def MAX_TIMEOUT_def)

lemma effectiveTimeout_clamp:
  "argTimeout args = Some t \<Longrightarrow> t \<noteq> 0 \<Longrightarrow>
   effectiveTimeout args = (if t < 1000 then 1000 else if t > 60000 then 60000 else t)"
  by (simp add: effectiveTimeout_def requestedTimeout_def MAX_TIMEOUT_def)

lemma pollStart_mono: "i \<le> k \<Longrightarrow> pollStart world i \<le> pollStart world k"
proof (induction k)
  case 0
  then show ?case by simp
next
  case (Suc k)
  show ?case
  proof (cases "i = Suc k")
    case True
    then show ?thesis by simp
  next
    case False
    with Suc.prems have "i \<le> k" by simp
    with Suc.IH have "pollStart world i \<le> pollStart world k" by simp
    then show ?thesis by simp
  qed
qed

text \<open>
  The loop gives up once an iteration would start at or after the timeout: what the dumps
  hold from then on does not matter.
\<close>

lemma waitLoop_timeout:
  "(\<forall>j\<ge>i. real (pollStart world j) < timeout \<longrightarrow> pollOnce criteria (dump (world j)) = None)
   \<Longrightarrow> waitLoop criteria timeout world i (pollStart world i) = TimedOut timeout"
proof (induction "nat \<lceil>timeout\<rceil> - pollStart world i" arbitrary: i rule: less_induct)
  case less
  show ?case
  proof (cases "real (pollStart world i) < timeout")
    case True
    then have n: "pollOnce criteria (dump (world i)) = None"
      using less.prems by simp
    have lt: "pollStart world i < nat \<lceil>timeout\<rceil>"
      using True by (rule elapsed_below_timeout)
    have gt: "pollStart world i < pollStart world (Suc i)"
      by (simp add: pollInterval_def)
    have m: "nat \<lceil>timeout\<rceil> - pollStart world (Suc i) < nat \<lceil>timeout\<rceil> - pollStart world i"
      by (rule diff_less_mono2 [OF gt lt])
    have p: "\<forall>j\<ge>Suc i. real (pollStart world j) < timeout \<longrightarrow>
        pollOnce criteria (dump (world j)) = None"
      using less.prems by simp
    have "waitLoop criteria timeout world i (pollStart world i) =
        waitLoop criteria timeout world (Suc i) (pollStart world (Suc i))"
      using True n
      by (simp add: waitLoop.simps [of criteria timeout world i "pollStart world i"])
    also have "\<dots> = TimedOut timeout"
      by (rule less.hyps [OF m p])
    finally show ?thesis .
  next
    case False
    then show ?thesis
      by (simp add: waitLoop.simps [of criteria timeout world i "pollStart world i"])
  qed
qed

lemma waitLoop_found:
  assumes "\<forall>j<k. pollOnce criteria (dump (world j)) = None"
    and "pollOnce criteria (dump (world k)) = Some el"
    and "real (pollStart world k) < timeout"
  shows "i \<le> k \<Longrightarrow>
     waitLoop criteria timeout world i (pollStart world i) =
       Found (pollStart world k + execMs (world k)) (text' el) (centerX el) (centerY el)"
proof (induction "k - i" arbitrary: i)
  case 0
  then have "i = k" by simp
  with assms(2,3) show ?case
    by (simp add: waitLoop.simps [of criteria timeout world k "pollStart world k"])
next
  case (Suc d)
  then have lt: "i < k" and d: "d = k - Suc i" and le: "Suc i \<le> k" by simp_all
  have "pollStart world i \<le> pollStart world k"
    using lt by (intro pollStart_mono) simp
  with assms(3) have t: "real (pollStart world i) < timeout" by simp
  have n: "pollOnce criteria (dump (world i)) = None"
    using assms(1) lt by blast
  have "waitLoop criteria timeout world i (pollStart world i) =
      waitLoop criteria timeout world (Suc i) (pollStart world (Suc i))"
    using t n by (simp add: waitLoop.simps [of criteria timeout world i "pollStart world i"])
  also have "\<dots> = Found (pollStart world k + execMs (world k)) (text' el) (centerX el) (centerY el)"
    using Suc.hyps(1) [OF d le] .
  finally show ?case .
qed

text \<open>
  Claim C8, as the code has it. The effective timeout of \<^verbatim>\<open>wait_for_element\<close> is the
  requested one (5000 ms when it is missing or 0) clamped to the range from 1000 ms to
  60000 ms. Search parameters longer than 500 characters are refused at once, without a
  poll. Otherwise the handler polls a fresh dump in every iteration, an iteration starting
  \<^verbatim>\<open>pollInterval\<close> = 500 ms (or more) after the dump of the one before, and only while the
  time elapsed is below the clamped timeout: when the target is in none of the dumps polled
  before the clamped timeout, whatever later dumps hold, the result is the timeout result
  and the wait time it reports is the clamped timeout; when the target first shows in the
  dump of an iteration that starts before the clamped timeout, the result is that element,
  found at the end of that dump.
\<close>

theorem wait_for_element_clamped:
  "1000 \<le> effectiveTimeout args \<and> effectiveTimeout args \<le> 60000 \<and>
   (argTimeout args = None \<or> argTimeout args = Some 0 \<longrightarrow> effectiveTimeout args = 5000) \<and>
   (\<forall>t. argTimeout args = Some t \<and> t \<noteq> 0 \<longrightarrow>
      effectiveTimeout args = (if t < 1000 then 1000 else if t > 60000 then 60000 else t)) \<and>
   (searchParametersTooLong args \<longrightarrow>
      wait_for_element args world = SearchParametersTooLongResult) \<and>
   pollStart world 0 = 0 \<and>
   (\<forall>k. pollStart world (Suc k) =
      pollStart world k + execMs (world k) + 500 + sleepExtraMs (world k)) \<and>
   (\<not> searchParametersTooLong args \<and>
    (\<forall>j. real (pollStart world j) < effectiveTimeout args \<longrightarrow>
       pollOnce (searchCriteria args) (dump (world j)) = None)
    \<longrightarrow> wait_for_element args world = TimedOut (effectiveTimeout args)) \<and>
   (\<forall>k el.
      \<not> searchParametersTooLong args \<and>
      (\<forall>j<k. pollOnce (searchCriteria args) (dump (world j)) = None) \<and>
      pollOnce (searchCriteria args) (dump (world k)) = Some el \<and>
      real (pollStart world k) < effectiveTimeout args
      \<longrightarrow> wait_for_element args world =
            Found (pollStart world k + execMs (world k)) (text' el) (centerX el) (centerY el))"
proof (intro conjI allI impI)
  show "1000 \<le> effectiveTimeout args" and "effectiveTimeout args \<le> 60000"
    using effectiveTimeout_range [of args] by simp_all
next
  assume "argTimeout args = None \<or> argTimeout args = Some 0"
  then show "effectiveTimeout args = 5000" by (rule effectiveTimeout_default)
next
  fix t
  assume "argTimeout args = Some t \<and> t \<noteq> 0"
  then show "effectiveTimeout args = (if t < 1000 then 1000 else if t > 60000 then 60000 else t)"
    using effectiveTimeout_clamp [of args t] by simp
next
  assume "searchParametersTooLong args"
  then show "wait_for_element args world = SearchParametersTooLongResult"
    by (simp add: wait_for_element_def)
next
  show "pollStart world 0 = 0" by simp
next
  fix k
  show "pollStart world (Suc k) =
      pollStart world k + execMs (world k) + 500 + sleepExtraMs (world k)"
    by (simp add: pollInterval_def)
next
  assume a: "\<not> searchParametersTooLong args \<and>
    (\<forall>j. real (pollStart world j) < effectiveTimeout args \<longrightarrow>
       pollOnce (searchCriteria args) (dump (world j)) = None)"
  then have "waitLoop (searchCriteria args) (effectiveTimeout args) world 0 (pollStart world 0) =
      TimedOut (effectiveTimeout args)"
    by (intro waitLoop_timeout) simp
  with a show "wait_for_element args world = TimedOut (effectiveTimeout args)"
    by (simp add: wait_for_element_def)
next
  fix k el
  assume a: "\<not> searchParametersTooLong args \<and>
      (\<forall>j<k. pollOnce (searchCriteria args) (dump (world j)) = None) \<and>
      pollOnce (searchCriteria args) (dump (world k)) = Some el \<and>
      real (pollStart world k) < effectiveTimeout args"
  then have "waitLoop (searchCriteria args) (effectiveTimeout args) world 0 (pollStart world 0) =
      Found (pollStart world k + execMs (world k)) (text' el) (centerX el) (centerY el)"
    by (intro waitLoop_found) simp_all
  with a show "wait_for_element args world =
      Found (pollStart world k + execMs (world k)) (text' el) (centerX el) (centerY el)"
    by (simp add: wait_for_element_def)
qed

lemma parseNode_text: "text' (parseNode node) = getText node ''text''"
  by (simp add: parseNode_def Let_def split: option.splits prod.splits)

lemma parseUiTree_submitDump: "parseUiTree submitDump = Inr [parseNode submitDump]"
proof -
  have "nodeRegex_exec submitDump = Some (submitDump, [])"
    by (simp add: submitDump_def matchNodeAt_def notGt_def)
  then have "nodeMatches submitDump = [submitDump]"
    by (simp add: nodeMatches.simps [of submitDump] nodeMatches.simps [of "[]"])
  moreover have "length submitDump \<le> MAX_XML_SIZE"
    by (simp add: submitDump_def MAX_XML_SIZE_def)
  ultimately show ?thesis
    by (simp add: parseUiTree_nodeMatches MAX_ELEMENTS_def)
qed

lemma text_submitDump: "text' (parseNode submitDump) = ''Submit''"
  by (simp add: parseNode_text getText_def submitDump_def notQuote_def)

lemma pollOnce_submitDump:
  "pollOnce (searchCriteria (waitForText t ''submit'')) (Some submitDump) =
     Some (parseNode submitDump)"
  by (simp add: pollOnce_def parseUiTree_submitDump searchCriteria_def waitForText_def
      textTest_def text_submitDump includes_str_def toLowerCase_def toLowerCaseChar_def)

lemma pollStart_lateWorld: "pollStart lateWorld j = 5500 * j"
  by (induction j) (simp_all add: lateWorld_def pollInterval_def)

theorem wait_for_element_clamped_witness:
  "requestedTimeout (waitForText 999999 ''submit'') = 999999 \<and>
   effectiveTimeout (waitForText 999999 ''submit'') = 60000 \<and>
   \<not> searchParametersTooLong (waitForText 999999 ''submit'') \<and>
   wait_for_element (waitForText 999999 ''submit'') deadWorld = TimedOut 60000 \<and>
   pollStart lateWorld 10 = 55000 \<and> pollStart lateWorld 11 = 60500 \<and>
   pollOnce (searchCriteria (waitForText 999999 ''submit'')) (dump (lateWorld 11)) =
     Some (parseNode submitDump) \<and>
   wait_for_element (waitForText 999999 ''submit'') lateWorld = TimedOut 60000 \<and>
   effectiveTimeout (waitForText 0 ''submit'') = 5000 \<and>
   effectiveTimeout (waitForText 250 ''submit'') = 1000 \<and>
   effectiveTimeout (waitForText 30000 ''submit'') = 30000 \<and>
   pollStart appearingWorld 2 = 1200 \<and>
   wait_for_element (waitForText 0 ''submit'') appearingWorld =
     Found 1300 ''Submit'' (centerX (parseNode submitDump)) (centerY (parseNode submitDump)) \<and>
   searchParametersTooLong (waitForText 5000 (replicate 501 CHR ''a'')) \<and>
   wait_for_element (waitForText 5000 (replicate 501 CHR ''a'')) deadWorld =
     SearchParametersTooLongResult"
proof -
  let ?a = "waitForText 999999 ''submit''" and ?b = "waitForText 0 ''submit''"
  let ?l = "waitForText 5000 (replicate 501 CHR ''a'')"
  have rq: "requestedTimeout ?a = 999999"
    by (simp add: requestedTimeout_def waitForText_def)
  have ef: "effectiveTimeout ?a = 60000"
    using wait_for_element_clamped [of ?a deadWorld] by (simp add: waitForText_def)
  have ok: "\<not> searchParametersTooLong (waitForText t ''submit'')" for t
    by (simp add: searchParametersTooLong_def tooLong_def waitForText_def MAX_SEARCH_LEN_def)
  have dead: "\<forall>j. real (pollStart deadWorld j) < effectiveTimeout ?a \<longrightarrow>
      pollOnce (searchCriteria ?a) (dump (deadWorld j)) = None"
    by (simp add: pollOnce_def deadWorld_def)
  have r1: "wait_for_element ?a deadWorld = TimedOut 60000"
    using wait_for_element_clamped [of ?a deadWorld] ok dead ef by simp
  have ps10: "pollStart lateWorld 10 = 55000" and ps11: "pollStart lateWorld 11 = 60500"
    by (simp_all add: pollStart_lateWorld)
  have at11: "pollOnce (searchCriteria ?a) (dump (lateWorld 11)) = Some (parseNode submitDump)"
    by (simp add: lateWorld_def pollOnce_submitDump)
  have late: "\<forall>j. real (pollStart lateWorld j) < effectiveTimeout ?a \<longrightarrow>
      pollOnce (searchCriteria ?a) (dump (lateWorld j)) = None"
  proof (intro allI impI)
    fix j
    assume "real (pollStart lateWorld j) < effectiveTimeout ?a"
    then have "5500 * j < 60000" by (simp add: pollStart_lateWorld ef)
    then have "j < 11" by simp
    then show "pollOnce (searchCriteria ?a) (dump (lateWorld j)) = None"
      by (simp add: lateWorld_def pollOnce_def)
  qed
  have r1': "wait_for_element ?a lateWorld = TimedOut 60000"
    using wait_for_element_clamped [of ?a lateWorld] ok late ef by simp
  have ef2: "effectiveTimeout ?b = 5000"
    using wait_for_element_clamped [of ?b deadWorld] by (simp add: waitForText_def)
  have ef3: "effectiveTimeout (waitForText 250 ''submit'') = 1000"
    using wait_for_element_clamped [of "waitForText 250 ''submit''" deadWorld]
    by (simp add: waitForText_def)
  have ef4: "effectiveTimeout (waitForText 30000 ''submit'') = 30000"
    using wait_for_element_clamped [of "waitForText 30000 ''submit''" deadWorld]
    by (simp add: waitForText_def)
  have ps: "pollStart appearingWorld 2 = 1200"
    by (simp add: numeral_2_eq_2 appearingWorld_def pollInterval_def)
  have before: "\<forall>j<2. pollOnce (searchCriteria ?b) (dump (appearingWorld j)) = None"
    by (simp add: pollOnce_def appearingWorld_def)
  have at: "pollOnce (searchCriteria ?b) (dump (appearingWorld 2)) = Some (parseNode submitDump)"
    by (simp add: appearingWorld_def pollOnce_submitDump)
  have "\<forall>k el.
      \<not> searchParametersTooLong ?b \<and>
      (\<forall>j<k. pollOnce (searchCriteria ?b) (dump (appearingWorld j)) = None) \<and>
      pollOnce (searchCriteria ?b) (dump (appearingWorld k)) = Some el \<and>
      real (pollStart appearingWorld k) < effectiveTimeout ?b
      \<longrightarrow> wait_for_element ?b appearingWorld =
            Found (pollStart appearingWorld k + execMs (appearingWorld k))
              (text' el) (centerX el) (centerY el)"
    using wait_for_element_clamped [of ?b appearingWorld] by blast
  from this [rule_format, of 2 "parseNode submitDump"]
  have r2: "wait_for_element ?b appearingWorld =
     Found 1300 ''Submit'' (centerX (parseNode submitDump)) (centerY (parseNode submitDump))"
    using ok before at ps ef2 by (simp add: text_submitDump appearingWorld_def)
  have tl: "searchParametersTooLong ?l"
    by (simp add: searchParametersTooLong_def tooLong_def waitForText_def MAX_SEARCH_LEN_def)
  have r3: "wait_for_element ?l deadWorld = SearchParametersTooLongResult"
    using wait_for_element_clamped [of ?l deadWorld] tl by blast
  from rq ef ok r1 ps10 ps11 at11 r1' ef2 ef3 ef4 ps r2 tl r3 show ?thesis by blast
qed

text \<open>
  Claim C8, as stated, fails: with a search text of 501 characters the target never
  appears, in no dump, and yet the result is not the timeout result: the parameters are
  refused before the first poll.
\<close>

theorem wait_for_element_too_long_counterexample:
  "(\<forall>j. pollOnce (searchCriteria (waitForText 5000 (replicate 501 CHR ''a'')))
          (dump (deadWorld j)) = None) \<and>
   wait_for_element (waitForText 5000 (replicate 501 CHR ''a'')) deadWorld =
     SearchParametersTooLongResult \<and>
   wait_for_element (waitForText 5000 (replicate 501 CHR ''a'')) deadWorld \<noteq>
     TimedOut (effectiveTimeout (waitForText 5000 (replicate 501 CHR ''a'')))"
  by (simp add: pollOnce_def deadWorld_def wait_for_element_def searchParametersTooLong_def
      tooLong_def waitForText_def MAX_SEARCH_LEN_def)

end
